theory Spec2Isabelle
  imports Complex_Main
begin

section \<open>Python values used by easypptx\<close>

text \<open>
  Python's \<^verbatim>\<open>float\<close> is modelled by \<^typ>\<open>real\<close>. The definitions of the first three
  sections take every float operation as exact. Where the rounding of binary64 arithmetic
  decides a branch or a stored text (the test of the centre correction, the two decimals of
  a cell's geometry), a second definition with the suffix \<open>_b64\<close> rounds every operation;
  these are in the section on binary64 arithmetic. Python's \<^verbatim>\<open>int\<close> is \<^typ>\<open>int\<close>. Every
  exception the modelled code can raise is a value of \<open>py_error\<close>, and a function that can
  raise returns \<open>py_error + 'a\<close>.
\<close>

datatype py_error =
    ValueError
  | ZeroDivisionError
  | AttributeError
  | UnboundLocalError
  | OutOfBoundsError
  | CellMergeError

text \<open>\<^verbatim>\<open>PositionType = Union[float, str]\<close>\<close>

datatype position = PStr string | PNum real

subsection \<open>String methods\<close>

definition py_endswith :: "string \<Rightarrow> string \<Rightarrow> bool" where
  "py_endswith s suf \<longleftrightarrow> length suf \<le> length s \<and> drop (length s - length suf) s = suf"

text \<open>\<^verbatim>\<open>s.strip(chars)\<close>: drop every leading and trailing character that occurs in \<open>chars\<close>.\<close>

definition py_strip :: "string \<Rightarrow> string \<Rightarrow> string" where
  "py_strip chars s =
     rev (dropWhile (\<lambda>c. c \<in> set chars) (rev (dropWhile (\<lambda>c. c \<in> set chars) s)))"

subsection \<open>Decimal literals: \<^verbatim>\<open>float(str)\<close>, \<^verbatim>\<open>int(str)\<close> and \<^verbatim>\<open>f"{v:.2f}"\<close>\<close>

text \<open>
  The whitespace that \<^verbatim>\<open>float\<close> and \<^verbatim>\<open>int\<close> ignore around a literal: tab, line feed,
  vertical tab, form feed, carriage return and space.
\<close>

definition py_whitespace :: string where
  "py_whitespace = [CHR 0x09, CHR 0x0A, CHR 0x0B, CHR 0x0C, CHR 0x0D, CHR '' '']"

definition is_digit :: "char \<Rightarrow> bool" where
  "is_digit c \<longleftrightarrow> c \<in> set ''0123456789''"

definition digit_val :: "char \<Rightarrow> nat" where
  "digit_val c = of_char c - 48"

definition digit_char :: "nat \<Rightarrow> char" where
  "digit_char d = ''0123456789'' ! d"

definition nat_of_digits :: "string \<Rightarrow> nat" where
  "nat_of_digits ds = foldl (\<lambda>a c. 10 * a + digit_val c) 0 ds"

fun digits_of_nat :: "nat \<Rightarrow> string" where
  "digits_of_nat n =
     (if n < 10 then [digit_char n] else digits_of_nat (n div 10) @ [digit_char (n mod 10)])"

declare digits_of_nat.simps [simp del]

text \<open>An optional sign in front of a literal: the flag says whether it was a minus.\<close>

definition split_sign :: "string \<Rightarrow> bool \<times> string" where
  "split_sign s =
     (case s of
        [] \<Rightarrow> (False, [])
      | c # cs \<Rightarrow>
          if c = CHR ''-'' then (True, cs)
          else if c = CHR ''+'' then (False, cs)
          else (False, s))"

text \<open>
  \<^verbatim>\<open>float(s)\<close> on a string, for the plain decimal literals
  \<^verbatim>\<open>[ws] [+|-] digits [. digits] [ws]\<close> (at least one digit, on either side of the
  point). \<open>None\<close> is Python's \<^verbatim>\<open>ValueError\<close>. Exponents, digit-group underscores,
  \<^verbatim>\<open>inf\<close>, \<^verbatim>\<open>nan\<close> and non-ASCII digits, which Python also accepts, are outside this
  model and are not used below.
\<close>

definition py_float :: "string \<Rightarrow> real option" where
  "py_float s =
     (let (neg, u) = split_sign (py_strip py_whitespace s);
          ip = takeWhile is_digit u;
          r = dropWhile is_digit u;
          sg = (if neg then - 1 else 1)
      in case r of
           [] \<Rightarrow> if ip = [] then None else Some (sg * real (nat_of_digits ip))
         | c # fp \<Rightarrow>
             if c = CHR ''.'' \<and> list_all is_digit fp \<and> ip @ fp \<noteq> []
             then Some (sg * (real (nat_of_digits ip) + real (nat_of_digits fp) / 10 ^ length fp))
             else None)"

text \<open>
  \<^verbatim>\<open>int(s)\<close> on a string, for the literals \<^verbatim>\<open>[ws] [+|-] digits [ws]\<close>; \<open>None\<close> is
  \<^verbatim>\<open>ValueError\<close>. A decimal point is never accepted.
\<close>

definition py_int :: "string \<Rightarrow> int option" where
  "py_int s =
     (let (neg, u) = split_sign (py_strip py_whitespace s)
      in if u \<noteq> [] \<and> list_all is_digit u
         then Some ((if neg then - 1 else 1) * int (nat_of_digits u))
         else None)"

text \<open>Rounding to the nearest integer, ties to the even neighbour.\<close>

definition round_half_even :: "real \<Rightarrow> int" where
  "round_half_even r =
     (let f = \<lfloor>r\<rfloor>; d = r - of_int f
      in if d < 1 / 2 then f else if 1 / 2 < d then f + 1 else if even f then f else f + 1)"

text \<open>
  \<^verbatim>\<open>f"{v:.2f}"\<close>: the sign of a negative value, the integer part, a point and exactly two
  decimals, the value being rounded to the nearest hundredth.
\<close>

definition format_2f :: "real \<Rightarrow> string" where
  "format_2f v =
     (let n = nat (round_half_even (\<bar>v\<bar> * 100))
      in (if v < 0 then ''-'' else '''') @ digits_of_nat (n div 100) @ ''.'' @
         [digit_char (n mod 100 div 10), digit_char (n mod 10)])"

text \<open>True division \<^verbatim>\<open>a / b\<close> of two ints.\<close>

definition py_truediv :: "int \<Rightarrow> int \<Rightarrow> py_error + real" where
  "py_truediv a b = (if b = 0 then Inl ZeroDivisionError else Inr (real_of_int a / real_of_int b))"

section \<open>slide.py: the position resolver\<close>

text \<open>
  Of a \<^verbatim>\<open>Slide\<close> the resolver reads the two cached dimensions \<^verbatim>\<open>_slide_width\<close> and
  \<^verbatim>\<open>_slide_height\<close>, in EMU.
\<close>

record slide =
  slide_width :: int
  slide_height :: int

text \<open>
  \<^verbatim>\<open>Slide._convert_position(value, slide_dimension, is_width, h_align)\<close>. The
  \<^verbatim>\<open>try\<close> block can only fail in the division of the cached width by the cached height;
  the bare \<^verbatim>\<open>except\<close> then returns the standard calculation.
\<close>

definition convert_position ::
  "slide \<Rightarrow> position \<Rightarrow> int \<Rightarrow> bool \<Rightarrow> string option \<Rightarrow> py_error + real" where
  "convert_position self v slide_dimension is_width h_align =
     (case v of
        PStr s \<Rightarrow>
          if py_endswith s ''%'' then
            (case py_float (py_strip ''%'' s) of
               None \<Rightarrow> Inl ValueError
             | Some percent \<Rightarrow>
                 if h_align = Some ''center'' \<and> is_width then
                   (let position_inches = (percent / 100) * (real_of_int slide_dimension / 914400)
                    in case py_truediv (slide_width self) (slide_height self) of
                         Inr current_ratio \<Rightarrow>
                           (let standard_ratio = 16 / 9
                            in if \<bar>current_ratio - standard_ratio\<bar> > 0.01
                               then (let adjustment = (current_ratio / standard_ratio - 1) * 0.5
                                     in Inr (position_inches * (1 + adjustment)))
                               else Inr position_inches)
                       | Inl _ \<Rightarrow> Inr ((percent / 100) * (real_of_int slide_dimension / 914400)))
                 else Inr ((percent / 100) * (real_of_int slide_dimension / 914400)))
          else (case py_float s of None \<Rightarrow> Inl ValueError | Some x \<Rightarrow> Inr x)
      | PNum x \<Rightarrow> Inr x)"

text \<open>
  The geometry that \<^verbatim>\<open>Slide.add_text\<close> and \<^verbatim>\<open>Slide.add_image\<close> compute, in inches,
  before they hand it to the drawing library. The calls into that library (creating the
  shape, fonts, colours) are not modelled.
\<close>

definition add_text ::
  "slide \<Rightarrow> position \<Rightarrow> position \<Rightarrow> position \<Rightarrow> position \<Rightarrow> string \<Rightarrow> string option
     \<Rightarrow> py_error + (real \<times> real \<times> real \<times> real)" where
  "add_text self x y width height align h_align =
     (let h_align1 = (if h_align = None \<and> align = ''center'' then Some ''center'' else h_align)
      in case convert_position self x (slide_width self) True h_align1 of
           Inl e \<Rightarrow> Inl e
         | Inr x_inches \<Rightarrow>
         (case convert_position self y (slide_height self) False None of
           Inl e \<Rightarrow> Inl e
         | Inr y_inches \<Rightarrow>
         (case convert_position self width (slide_width self) True None of
           Inl e \<Rightarrow> Inl e
         | Inr width_inches \<Rightarrow>
         (case convert_position self height (slide_height self) False None of
           Inl e \<Rightarrow> Inl e
         | Inr height_inches \<Rightarrow> Inr (x_inches, y_inches, width_inches, height_inches)))))"

text \<open>
  \<^verbatim>\<open>Slide.add_image\<close>. The default-alignment test evaluates \<^verbatim>\<open>int(x.strip("%"))\<close>
  only when \<open>h_align\<close> is unset and \<open>x\<close> is a string that contains a percent sign.
\<close>

definition add_image ::
  "slide \<Rightarrow> position \<Rightarrow> position \<Rightarrow> position option \<Rightarrow> position option \<Rightarrow> string option
     \<Rightarrow> py_error + (real \<times> real \<times> real option \<times> real option)" where
  "add_image self x y width height h_align =
     (case (case (h_align, x) of
              (None, PStr xs) \<Rightarrow>
                if CHR ''%'' \<in> set xs then
                  (case py_int (py_strip ''%'' xs) of
                     None \<Rightarrow> Inl ValueError
                   | Some n \<Rightarrow> Inr (if n > 20 then Some ''center'' else h_align))
                else Inr h_align
            | _ \<Rightarrow> Inr h_align) of
        Inl e \<Rightarrow> Inl e
      | Inr h_align1 \<Rightarrow>
      (case convert_position self x (slide_width self) True h_align1 of
        Inl e \<Rightarrow> Inl e
      | Inr x_inches \<Rightarrow>
      (case convert_position self y (slide_height self) False None of
        Inl e \<Rightarrow> Inl e
      | Inr y_inches \<Rightarrow>
      (case (case width of
               None \<Rightarrow> Inr None
             | Some w \<Rightarrow> map_sum id Some (convert_position self w (slide_width self) True None)) of
        Inl e \<Rightarrow> Inl e
      | Inr width_inches \<Rightarrow>
      (case (case height of
               None \<Rightarrow> Inr None
             | Some h \<Rightarrow> map_sum id Some (convert_position self h (slide_height self) False None)) of
        Inl e \<Rightarrow> Inl e
      | Inr height_inches \<Rightarrow> Inr (x_inches, y_inches, width_inches, height_inches))))))"

section \<open>grid.py: the grid engine\<close>

text \<open>
  A \<^verbatim>\<open>GridCell\<close>. Its geometry is stored as four percent strings such as \<^verbatim>\<open>"2.50%"\<close>;
  \<open>'a\<close> is the type of the content handles that the content functions return.
\<close>

record 'a grid_cell =
  cell_row :: int
  cell_col :: int
  cell_x :: string
  cell_y :: string
  cell_width :: string
  cell_height :: string
  content :: "'a option"
  span_rows :: int
  span_cols :: int
  is_spanned :: bool

definition GridCell :: "int \<Rightarrow> int \<Rightarrow> string \<Rightarrow> string \<Rightarrow> string \<Rightarrow> string \<Rightarrow> 'a grid_cell" where
  "GridCell row col x y width height =
     \<lparr>cell_row = row, cell_col = col, cell_x = x, cell_y = y, cell_width = width,
      cell_height = height, content = None, span_rows = 1, span_cols = 1, is_spanned = False\<rparr>"

text \<open>A \<^verbatim>\<open>Grid\<close>, without its \<open>parent\<close> reference.\<close>

record 'a grid =
  grid_x :: position
  grid_y :: position
  grid_width :: position
  grid_height :: position
  grid_rows :: int
  grid_cols :: int
  grid_padding :: real
  grid_h_align :: "string option"
  cells :: "'a grid_cell list list"

text \<open>
  \<^verbatim>\<open>Grid._create_cells\<close>. The two divisions \<^verbatim>\<open>100.0 / self.cols\<close> and
  \<^verbatim>\<open>100.0 / self.rows\<close> raise when the divisor is zero; \<^verbatim>\<open>range\<close> of a negative count
  is empty.
\<close>

definition create_cells :: "int \<Rightarrow> int \<Rightarrow> real \<Rightarrow> py_error + 'a grid_cell list list" where
  "create_cells rows cols padding =
     (let padding_factor = padding / 100
      in if cols = 0 then Inl ZeroDivisionError
         else if rows = 0 then Inl ZeroDivisionError
         else
           (let cell_width_percent = 100 / real_of_int cols;
                cell_height_percent = 100 / real_of_int rows;
                effective_cell_width = cell_width_percent * (1 - padding_factor);
                effective_cell_height = cell_height_percent * (1 - padding_factor);
                half_padding_width = (cell_width_percent * padding_factor) / 2;
                half_padding_height = (cell_height_percent * padding_factor) / 2
            in Inr (map (\<lambda>row. map (\<lambda>col.
                 (let x_percent = (real col * cell_width_percent) + half_padding_width;
                      y_percent = (real row * cell_height_percent) + half_padding_height;
                      x_str = format_2f x_percent @ ''%'';
                      y_str = format_2f y_percent @ ''%'';
                      width_str = format_2f effective_cell_width @ ''%'';
                      height_str = format_2f effective_cell_height @ ''%''
                  in GridCell (int row) (int col) x_str y_str width_str height_str))
                 [0..<nat cols]) [0..<nat rows])))"

text \<open>\<^verbatim>\<open>Grid.__init__\<close>\<close>

definition Grid ::
  "position \<Rightarrow> position \<Rightarrow> position \<Rightarrow> position \<Rightarrow> int \<Rightarrow> int \<Rightarrow> real \<Rightarrow> string option
     \<Rightarrow> py_error + 'a grid" where
  "Grid x y width height rows cols padding h_align =
     (case create_cells rows cols padding of
        Inl e \<Rightarrow> Inl e
      | Inr cs \<Rightarrow>
          Inr \<lparr>grid_x = x, grid_y = y, grid_width = width, grid_height = height,
               grid_rows = rows, grid_cols = cols, grid_padding = padding,
               grid_h_align = h_align, cells = cs\<rparr>)"

text \<open>\<^verbatim>\<open>self.cells[row][col]\<close> for indices that have passed the bounds check.\<close>

definition cell_at :: "'a grid \<Rightarrow> int \<Rightarrow> int \<Rightarrow> 'a grid_cell" where
  "cell_at self row col = cells self ! nat row ! nat col"

definition set_cell :: "'a grid \<Rightarrow> int \<Rightarrow> int \<Rightarrow> 'a grid_cell \<Rightarrow> 'a grid" where
  "set_cell self row col c =
     self\<lparr>cells := (cells self)[nat row := (cells self ! nat row)[nat col := c] ]\<rparr>"

definition get_cell :: "'a grid \<Rightarrow> int \<Rightarrow> int \<Rightarrow> py_error + 'a grid_cell" where
  "get_cell self row col =
     (if row < 0 \<or> row \<ge> grid_rows self \<or> col < 0 \<or> col \<ge> grid_cols self
      then Inl OutOfBoundsError
      else Inr (cell_at self row col))"

text \<open>\<^verbatim>\<open>float(s.strip("%"))\<close> on a stored percent string.\<close>

definition percent_value :: "string \<Rightarrow> py_error + real" where
  "percent_value s = (case py_float (py_strip ''%'' s) of None \<Rightarrow> Inl ValueError | Some v \<Rightarrow> Inr v)"

text \<open>
  \<^verbatim>\<open>Grid.merge_cells\<close>: the bounds check, the order check, the scan of the range for
  cells that are already spanned, then the update of the top-left cell and the marking of
  every other cell of the range. The result is the grid after the call and the merged cell.
\<close>

definition merge_cells ::
  "'a grid \<Rightarrow> int \<Rightarrow> int \<Rightarrow> int \<Rightarrow> int \<Rightarrow> py_error + ('a grid \<times> 'a grid_cell)" where
  "merge_cells self start_row start_col end_row end_col =
     (if start_row < 0 \<or> start_row \<ge> grid_rows self \<or>
         start_col < 0 \<or> start_col \<ge> grid_cols self \<or>
         end_row < 0 \<or> end_row \<ge> grid_rows self \<or>
         end_col < 0 \<or> end_col \<ge> grid_cols self
      then Inl OutOfBoundsError
      else if start_row > end_row \<or> start_col > end_col then Inl CellMergeError
      else if list_ex (\<lambda>row. list_ex (\<lambda>col. is_spanned (cell_at self row col))
                 [start_col..end_col]) [start_row..end_row]
      then Inl CellMergeError
      else
        (let first_cell = cell_at self start_row start_col;
             last_cell = cell_at self end_row end_col
         in case percent_value (cell_x first_cell) of Inl e \<Rightarrow> Inl e | Inr first_x \<Rightarrow>
           (case percent_value (cell_y first_cell) of Inl e \<Rightarrow> Inl e | Inr first_y \<Rightarrow>
           (case percent_value (cell_x last_cell) of Inl e \<Rightarrow> Inl e | Inr last_x \<Rightarrow>
           (case percent_value (cell_y last_cell) of Inl e \<Rightarrow> Inl e | Inr last_y \<Rightarrow>
           (case percent_value (cell_width last_cell) of Inl e \<Rightarrow> Inl e | Inr last_width \<Rightarrow>
           (case percent_value (cell_height last_cell) of Inl e \<Rightarrow> Inl e | Inr last_height \<Rightarrow>
             (let new_width = (last_x + last_width) - first_x;
                  new_height = (last_y + last_height) - first_y;
                  merged = first_cell
                    \<lparr>cell_width := format_2f new_width @ ''%'',
                     cell_height := format_2f new_height @ ''%'',
                     span_rows := end_row - start_row + 1,
                     span_cols := end_col - start_col + 1\<rparr>;
                  marked = foldl (\<lambda>g (row, col).
                      if (row, col) \<noteq> (start_row, start_col)
                      then set_cell g row col ((cell_at g row col)\<lparr>is_spanned := True\<rparr>)
                      else g)
                    (set_cell self start_row start_col merged)
                    (List.product [start_row..end_row] [start_col..end_col])
              in Inr (marked, merged)))))))))"

text \<open>
  The position of the grid itself in percent, as \<^verbatim>\<open>add_to_cell\<close> reads it: a percent
  string is parsed, anything else is taken as inches and multiplied by the given factor.
\<close>

definition grid_origin_percent :: "position \<Rightarrow> real \<Rightarrow> py_error + real" where
  "grid_origin_percent p factor =
     (case p of
        PStr s \<Rightarrow>
          if py_endswith s ''%'' then percent_value s
          else (case py_float s of None \<Rightarrow> Inl ValueError | Some v \<Rightarrow> Inr (v * factor))
      | PNum v \<Rightarrow> Inr (v * factor))"

text \<open>
  \<^verbatim>\<open>float(self.width.strip("%"))\<close>: the grid's width and height must be strings here, a
  number has no \<^verbatim>\<open>strip\<close> method.
\<close>

definition grid_size_percent :: "position \<Rightarrow> py_error + real" where
  "grid_size_percent p = (case p of PStr s \<Rightarrow> percent_value s | PNum v \<Rightarrow> Inl AttributeError)"

text \<open>
  \<^verbatim>\<open>Grid.add_to_cell\<close>. The keyword arguments are a map from names to strings; the content
  function receives them and returns the content handle, which the cell stores. The result
  is the grid after the call and the handle.
\<close>

definition add_to_cell ::
  "'a grid \<Rightarrow> int \<Rightarrow> int \<Rightarrow> ((string \<rightharpoonup> string) \<Rightarrow> 'a) \<Rightarrow> (string \<rightharpoonup> string)
     \<Rightarrow> py_error + ('a grid \<times> 'a)" where
  "add_to_cell self row col content_func kwargs =
     (case get_cell self row col of Inl e \<Rightarrow> Inl e | Inr cell \<Rightarrow>
        if is_spanned cell then Inl CellMergeError
        else
         (case grid_origin_percent (grid_x self) 10 of Inl e \<Rightarrow> Inl e | Inr grid_x_percent \<Rightarrow>
         (case grid_origin_percent (grid_y self) 13.333 of Inl e \<Rightarrow> Inl e | Inr grid_y_percent \<Rightarrow>
         (case percent_value (cell_x cell) of Inl e \<Rightarrow> Inl e | Inr cell_x_percent \<Rightarrow>
         (case percent_value (cell_y cell) of Inl e \<Rightarrow> Inl e | Inr cell_y_percent \<Rightarrow>
         (case grid_size_percent (grid_width self) of Inl e \<Rightarrow> Inl e | Inr self_width \<Rightarrow>
         (case grid_size_percent (grid_height self) of Inl e \<Rightarrow> Inl e | Inr self_height \<Rightarrow>
         (case percent_value (cell_width cell) of Inl e \<Rightarrow> Inl e | Inr cell_width_percent \<Rightarrow>
         (case percent_value (cell_height cell) of Inl e \<Rightarrow> Inl e | Inr cell_height_percent \<Rightarrow>
           (let abs_x_percent = grid_x_percent + (cell_x_percent * self_width / 100);
                abs_y_percent = grid_y_percent + (cell_y_percent * self_height / 100);
                abs_width_percent = (cell_width_percent * self_width / 100);
                abs_height_percent = (cell_height_percent * self_height / 100);
                kwargs1 = kwargs(''x'' \<mapsto> format_2f abs_x_percent @ ''%'',
                                 ''y'' \<mapsto> format_2f abs_y_percent @ ''%'',
                                 ''width'' \<mapsto> format_2f abs_width_percent @ ''%'',
                                 ''height'' \<mapsto> format_2f abs_height_percent @ ''%'');
                kwargs2 =
                  (case grid_h_align self of
                     Some a \<Rightarrow> if kwargs1 ''h_align'' = None \<and> a \<noteq> [] then kwargs1(''h_align'' \<mapsto> a)
                               else kwargs1
                   | None \<Rightarrow> kwargs1);
                c = content_func kwargs2
            in Inr (set_cell self row col (cell\<lparr>content := Some c\<rparr>), c)))))))))))"

text \<open>\<^verbatim>\<open>int(num_items ** 0.5)\<close>: the integer part of the square root.\<close>

primrec int_sqrt :: "nat \<Rightarrow> nat" where
  "int_sqrt 0 = 0"
| "int_sqrt (Suc n) = (let r = int_sqrt n in if (r + 1) * (r + 1) \<le> Suc n then r + 1 else r)"

text \<open>Floor division \<^verbatim>\<open>a // b\<close> of two ints.\<close>

definition py_floordiv :: "int \<Rightarrow> int \<Rightarrow> py_error + int" where
  "py_floordiv a b = (if b = 0 then Inl ZeroDivisionError else Inr (a div b))"

text \<open>
  The placement loop of \<^verbatim>\<open>Grid.autogrid\<close>: each content function is called without
  arguments through a wrapper that drops the keyword arguments of \<^verbatim>\<open>add_to_cell\<close>; the
  loop leaves with \<^verbatim>\<open>break\<close> once the row index has reached \<open>rows\<close>.
\<close>

fun place_content ::
  "'a grid \<Rightarrow> int \<Rightarrow> int \<Rightarrow> int \<Rightarrow> int \<Rightarrow> (unit \<Rightarrow> 'a) list \<Rightarrow> py_error + 'a grid" where
  "place_content grid rows cols row_idx col_idx [] = Inr grid"
| "place_content grid rows cols row_idx col_idx (func # rest) =
     (case add_to_cell grid row_idx col_idx (\<lambda>kwargs. func ()) Map.empty of
        Inl e \<Rightarrow> Inl e
      | Inr (grid1, c) \<Rightarrow>
          (let col_idx1 = col_idx + 1;
               (col_idx2, row_idx2) = (if col_idx1 \<ge> cols then (0, row_idx + 1) else (col_idx1, row_idx))
           in if row_idx2 \<ge> rows then Inr grid1
              else place_content grid1 rows cols row_idx2 col_idx2 rest))"

text \<open>
  \<^verbatim>\<open>str(title_height).strip("%")\<close> read as a float: a number is printed and read back, a
  string is stripped and parsed.
\<close>

definition title_height_value :: "position \<Rightarrow> py_error + real" where
  "title_height_value p = (case p of PStr s \<Rightarrow> percent_value s | PNum v \<Rightarrow> Inr v)"

text \<open>
  \<^verbatim>\<open>Grid.autogrid\<close>. \<open>parent\<close> is the slide that draws the title; \<open>title_y\<close> is only bound
  when a title is given and \<open>y\<close> is a percent string.
\<close>

definition autogrid ::
  "slide \<Rightarrow> (unit \<Rightarrow> 'a) list \<Rightarrow> int option \<Rightarrow> int option \<Rightarrow> position \<Rightarrow> position \<Rightarrow> position
     \<Rightarrow> position \<Rightarrow> real \<Rightarrow> string option \<Rightarrow> string option \<Rightarrow> position \<Rightarrow> py_error + 'a grid" where
  "autogrid parent content_funcs rows cols x y width height padding h_align title title_height =
     (let num_items = int (length content_funcs)
      in if num_items = 0 then Grid x y width height 1 1 5 (Some ''center'')
         else
          (case (case (rows, cols) of
                   (None, None) \<Rightarrow>
                     (let cols1 = max 1 (int (int_sqrt (length content_funcs)))
                      in map_sum id (\<lambda>rows1. (rows1, cols1)) (py_floordiv (num_items + cols1 - 1) cols1))
                 | (None, Some cols1) \<Rightarrow>
                     map_sum id (\<lambda>rows1. (rows1, cols1)) (py_floordiv (num_items + cols1 - 1) cols1)
                 | (Some rows1, None) \<Rightarrow>
                     map_sum id (\<lambda>cols1. (rows1, cols1)) (py_floordiv (num_items + rows1 - 1) rows1)
                 | (Some rows1, Some cols1) \<Rightarrow> Inr (rows1, cols1)) of
             Inl e \<Rightarrow> Inl e
           | Inr (rows1, cols1) \<Rightarrow>
          (let has_title = (title \<noteq> None \<and> title \<noteq> Some [])
           in case (case y of
                      PStr ys \<Rightarrow>
                        if has_title \<and> py_endswith ys ''%'' then
                          (case percent_value ys of Inl e \<Rightarrow> Inl e | Inr y_percent \<Rightarrow>
                          (case title_height_value title_height of Inl e \<Rightarrow> Inl e
                           | Inr title_height_percent \<Rightarrow>
                          (case (case height of
                                   PStr hs \<Rightarrow>
                                     if py_endswith hs ''%'' then
                                       (case percent_value hs of Inl e \<Rightarrow> Inl e
                                        | Inr height_percent \<Rightarrow>
                                            Inr (PStr (format_2f (height_percent - title_height_percent) @ ''%'')))
                                     else Inr height
                                 | PNum _ \<Rightarrow> Inr height) of
                             Inl e \<Rightarrow> Inl e
                           | Inr adjusted_height \<Rightarrow>
                               Inr (PStr (format_2f (y_percent + title_height_percent) @ ''%''),
                                    adjusted_height,
                                    Some (format_2f y_percent @ ''%'')))))
                        else Inr (y, height, None)
                    | PNum _ \<Rightarrow> Inr (y, height, None)) of
                Inl e \<Rightarrow> Inl e
              | Inr (adjusted_y, adjusted_height, title_y) \<Rightarrow>
             (case Grid x adjusted_y width adjusted_height rows1 cols1 padding h_align of
                Inl e \<Rightarrow> Inl e
              | Inr grid \<Rightarrow>
             (case (if has_title then
                      (case title_y of
                         None \<Rightarrow> Inl UnboundLocalError
                       | Some ty \<Rightarrow>
                           map_sum id (\<lambda>_. ())
                             (add_text parent x (PStr ty) width title_height ''center'' h_align))
                    else Inr ()) of
                Inl e \<Rightarrow> Inl e
              | Inr _ \<Rightarrow> place_content grid rows1 cols1 0 0 content_funcs)))))"

section \<open>Binary64 arithmetic\<close>

text \<open>
  A Python float is an IEEE 754 binary64 number, and every arithmetic operation returns the
  exact result rounded to the nearest binary64 number, ties to the even significand.
  \<open>b64 x\<close> is that rounding of the real number \<open>x\<close>: \<open>binade_from \<bar>x\<bar> 0\<close> is the exponent
  \<open>e\<close> with \<open>2^e \<le> \<bar>x\<bar> < 2^(e+1)\<close>, the spacing of the binary64 numbers there is
  \<open>2^(e-52)\<close>, and \<open>x\<close> is rounded to a multiple of it. The exponent is not bounded:
  overflow and subnormal numbers are not part of the model (the quantities of this program
  are percentages, slide dimensions and their ratios).
\<close>

definition pow2 :: "int \<Rightarrow> real" where
  "pow2 e = (if 0 \<le> e then 2 ^ nat e else 1 / 2 ^ nat (- e))"

function binade_from :: "real \<Rightarrow> int \<Rightarrow> int" where
  "binade_from x e =
     (if x \<le> 0 then e
      else if 2 \<le> x then binade_from (x / 2) (e + 1)
      else if x < 1 then binade_from (x * 2) (e - 1)
      else e)"
  by pat_completeness auto
termination
proof (relation "measure (\<lambda>(x, e). nat \<bar>\<lfloor>log 2 x\<rfloor>\<bar>)")
  show "wf (measure (\<lambda>(x, e). nat \<bar>\<lfloor>log 2 x\<rfloor>\<bar>))" by simp
next
  fix x :: real and e :: int
  assume "\<not> x \<le> 0" and big: "2 \<le> x"
  then have pos: "0 < x" by simp
  have l: "log 2 (x / 2) = log 2 x - 1" using pos by (simp add: log_divide)
  have "1 \<le> log 2 x" using big pos by (simp add: le_log_iff)
  then have f: "1 \<le> \<lfloor>log 2 x\<rfloor>" by linarith
  have "\<lfloor>log 2 (x / 2)\<rfloor> = \<lfloor>log 2 x\<rfloor> - 1" unfolding l by linarith
  with f show "((x / 2, e + 1), (x, e)) \<in> measure (\<lambda>(x, e). nat \<bar>\<lfloor>log 2 x\<rfloor>\<bar>)"
    by simp
next
  fix x :: real and e :: int
  assume "\<not> x \<le> 0" and "\<not> 2 \<le> x" and small: "x < 1"
  then have pos: "0 < x" by simp
  have l: "log 2 (x * 2) = log 2 x + 1" using pos by (simp add: log_mult)
  have "log 2 x < 0" using small pos by simp
  then have f: "\<lfloor>log 2 x\<rfloor> \<le> - 1" by linarith
  have "\<lfloor>log 2 (x * 2)\<rfloor> = \<lfloor>log 2 x\<rfloor> + 1" unfolding l by linarith
  with f show "((x * 2, e - 1), (x, e)) \<in> measure (\<lambda>(x, e). nat \<bar>\<lfloor>log 2 x\<rfloor>\<bar>)"
    by simp
qed

declare binade_from.simps [simp del]

definition b64 :: "real \<Rightarrow> real" where
  "b64 x =
     (if x = 0 then 0
      else (let u = pow2 (binade_from \<bar>x\<bar> 0 - 52)
            in real_of_int (round_half_even (x / u)) * u))"

subsection \<open>The position resolver, every operation rounded\<close>

text \<open>
  \<^verbatim>\<open>Slide._convert_position\<close> as \<open>convert_position\<close> above, with the rounding of each
  operation: \<^verbatim>\<open>float(value.strip("%"))\<close> rounds the decimal literal,
  \<^verbatim>\<open>(percent / 100) * (slide_dimension / 914400)\<close> rounds twice in the factors and once in
  the product, and so on. The constants \<^verbatim>\<open>16 / 9\<close> and \<^verbatim>\<open>0.01\<close> are the binary64 numbers
  next to them; \<^verbatim>\<open>0.5\<close> and \<^verbatim>\<open>1\<close> are binary64 numbers themselves.
\<close>

definition py_truediv_b64 :: "int \<Rightarrow> int \<Rightarrow> py_error + real" where
  "py_truediv_b64 a b =
     (if b = 0 then Inl ZeroDivisionError else Inr (b64 (real_of_int a / real_of_int b)))"

definition convert_position_b64 ::
  "slide \<Rightarrow> position \<Rightarrow> int \<Rightarrow> bool \<Rightarrow> string option \<Rightarrow> py_error + real" where
  "convert_position_b64 self v slide_dimension is_width h_align =
     (case v of
        PStr s \<Rightarrow>
          if py_endswith s ''%'' then
            (case py_float (py_strip ''%'' s) of
               None \<Rightarrow> Inl ValueError
             | Some literal \<Rightarrow>
                (let percent = b64 literal
                 in if h_align = Some ''center'' \<and> is_width then
                   (let position_inches =
                          b64 (b64 (percent / 100) * b64 (real_of_int slide_dimension / 914400))
                    in case py_truediv_b64 (slide_width self) (slide_height self) of
                         Inr current_ratio \<Rightarrow>
                           (let standard_ratio = b64 (16 / 9)
                            in if \<bar>b64 (current_ratio - standard_ratio)\<bar> > b64 0.01
                               then (let adjustment =
                                           b64 (b64 (b64 (current_ratio / standard_ratio) - 1) * 0.5)
                                     in Inr (b64 (position_inches * b64 (1 + adjustment))))
                               else Inr position_inches)
                       | Inl _ \<Rightarrow>
                           Inr (b64 (b64 (percent / 100) * b64 (real_of_int slide_dimension / 914400))))
                 else Inr (b64 (b64 (percent / 100) * b64 (real_of_int slide_dimension / 914400)))))
          else (case py_float s of None \<Rightarrow> Inl ValueError | Some x \<Rightarrow> Inr (b64 x))
      | PNum x \<Rightarrow> Inr x)"

subsection \<open>The cell geometry, every operation rounded\<close>

text \<open>
  \<^verbatim>\<open>Grid._create_cells\<close> and \<^verbatim>\<open>Grid.__init__\<close> as \<open>create_cells\<close> and \<open>Grid\<close> above, with
  the rounding of each operation; \<^verbatim>\<open>col * cell_width_percent\<close> converts the integer \<open>col\<close>
  to a float first. The text of each field is \<^verbatim>\<open>f"{v:.2f}%"\<close> of the binary64 value.
\<close>

definition create_cells_b64 :: "int \<Rightarrow> int \<Rightarrow> real \<Rightarrow> py_error + 'a grid_cell list list" where
  "create_cells_b64 rows cols padding =
     (let padding_factor = b64 (padding / 100)
      in if cols = 0 then Inl ZeroDivisionError
         else if rows = 0 then Inl ZeroDivisionError
         else
           (let cell_width_percent = b64 (100 / real_of_int cols);
                cell_height_percent = b64 (100 / real_of_int rows);
                effective_cell_width = b64 (cell_width_percent * b64 (1 - padding_factor));
                effective_cell_height = b64 (cell_height_percent * b64 (1 - padding_factor));
                half_padding_width = b64 (b64 (cell_width_percent * padding_factor) / 2);
                half_padding_height = b64 (b64 (cell_height_percent * padding_factor) / 2)
            in Inr (map (\<lambda>row. map (\<lambda>col.
                 (let x_percent = b64 (b64 (b64 (real col) * cell_width_percent) + half_padding_width);
                      y_percent = b64 (b64 (b64 (real row) * cell_height_percent) + half_padding_height);
                      x_str = format_2f x_percent @ ''%'';
                      y_str = format_2f y_percent @ ''%'';
                      width_str = format_2f effective_cell_width @ ''%'';
                      height_str = format_2f effective_cell_height @ ''%''
                  in GridCell (int row) (int col) x_str y_str width_str height_str))
                 [0..<nat cols]) [0..<nat rows])))"

definition Grid_b64 ::
  "position \<Rightarrow> position \<Rightarrow> position \<Rightarrow> position \<Rightarrow> int \<Rightarrow> int \<Rightarrow> real \<Rightarrow> string option
     \<Rightarrow> py_error + 'a grid" where
  "Grid_b64 x y width height rows cols padding h_align =
     (case create_cells_b64 rows cols padding of
        Inl e \<Rightarrow> Inl e
      | Inr cs \<Rightarrow>
          Inr \<lparr>grid_x = x, grid_y = y, grid_width = width, grid_height = height,
               grid_rows = rows, grid_cols = cols, grid_padding = padding,
               grid_h_align = h_align, cells = cs\<rparr>)"

section \<open>Notions used in the proofs\<close>

text \<open>The number that the text printed by \<open>format_2f\<close> denotes.\<close>

definition round_2f :: "real \<Rightarrow> real" where
  "round_2f v = (if v < 0 then - 1 else 1) * (real (nat (round_half_even (\<bar>v\<bar> * 100))) / 100)"

text \<open>
  A cell that \<^verbatim>\<open>add_to_cell\<close> accepts: not spanned, with a geometry that reads back as
  numbers. A grid of \<open>R\<close> rows and \<open>C\<close> columns whose cells are all of this kind and whose
  own geometry reads back as numbers.
\<close>

definition cell_ready :: "'a grid_cell \<Rightarrow> bool" where
  "cell_ready c \<longleftrightarrow> \<not> is_spanned c \<and> \<not> isl (percent_value (cell_x c)) \<and>
     \<not> isl (percent_value (cell_y c)) \<and> \<not> isl (percent_value (cell_width c)) \<and>
     \<not> isl (percent_value (cell_height c))"

definition grid_ready :: "'a grid \<Rightarrow> nat \<Rightarrow> nat \<Rightarrow> bool" where
  "grid_ready g R C \<longleftrightarrow> grid_rows g = int R \<and> grid_cols g = int C \<and> length (cells g) = R \<and>
     list_all (\<lambda>row. length row = C \<and> list_all cell_ready row) (cells g) \<and>
     \<not> isl (grid_origin_percent (grid_x g) 10) \<and> \<not> isl (grid_origin_percent (grid_y g) 13.333) \<and>
     \<not> isl (grid_size_percent (grid_width g)) \<and> \<not> isl (grid_size_percent (grid_height g))"

text \<open>A percent string that reads back as a number, such as \<^verbatim>\<open>"5%"\<close>.\<close>

definition percent_ready :: "position \<Rightarrow> bool" where
  "percent_ready p \<longleftrightarrow>
     (case p of PStr s \<Rightarrow> py_endswith s ''%'' \<and> \<not> isl (percent_value s) | PNum v \<Rightarrow> False)"

text \<open>The sum of the widths that the cells of one row store, each read back as a number.\<close>

definition stored_width_sum :: "'a grid_cell list \<Rightarrow> real" where
  "stored_width_sum row_cells =
     sum_list (map (\<lambda>cell. case percent_value (cell_width cell) of Inr v \<Rightarrow> v | Inl _ \<Rightarrow> 0)
       row_cells)"

section \<open>Facts about decimal literals\<close>

lemmas fmt_eval = format_2f_def Let_def round_half_even_def digits_of_nat.simps digit_char_def

lemmas parse_eval = percent_value_def py_float_def py_int_def py_strip_def py_whitespace_def
  split_sign_def is_digit_def nat_of_digits_def digit_val_def py_endswith_def

lemma digit_table:
  "list_all (\<lambda>d. is_digit (digit_char d) \<and> digit_val (digit_char d) = d) [0..<10]"
  by code_simp

lemma digit_char_props:
  assumes "d < 10"
  shows "is_digit (digit_char d)" and "digit_val (digit_char d) = d"
  using digit_table assms by (simp_all add: list_all_iff)

lemma is_digit_not_special:
  assumes "is_digit c"
  shows "c \<noteq> CHR ''%''" "c \<noteq> CHR ''.''" "c \<noteq> CHR ''-''" "c \<noteq> CHR ''+''" "c \<notin> set py_whitespace"
  using assms by (auto simp add: is_digit_def py_whitespace_def)

lemma nat_of_digits_snoc: "nat_of_digits (ds @ [c]) = 10 * nat_of_digits ds + digit_val c"
  by (simp add: nat_of_digits_def)

lemma digits_of_nat_props:
  "digits_of_nat n \<noteq> [] \<and> list_all is_digit (digits_of_nat n) \<and> nat_of_digits (digits_of_nat n) = n"
proof (induction n rule: digits_of_nat.induct)
  case (1 n)
  show ?case
  proof (cases "n < 10")
    case True
    then show ?thesis
      by (simp add: digits_of_nat.simps [of n] digit_char_props nat_of_digits_def)
  next
    case False
    have m: "n mod 10 < 10" by simp
    from False 1 show ?thesis
      by (simp add: digits_of_nat.simps [of n] digit_char_props [OF m] nat_of_digits_snoc)
  qed
qed

lemma py_strip_core:
  assumes "s \<noteq> []" and "hd s \<notin> set cs" and "last s \<notin> set cs" and "set t \<subseteq> set cs"
  shows "py_strip cs (s @ t) = s"
proof -
  obtain a s' where s: "s = a # s'" using assms(1) by (cases s) auto
  have d1: "dropWhile (\<lambda>c. c \<in> set cs) (s @ t) = s @ t"
    using assms(2) by (simp add: s)
  have r: "rev s = last s # rev (butlast s)"
    using assms(1) by (metis append_butlast_last_id rev.simps(2) rev_append rev_rev_ident rev_singleton_conv append_Cons append_Nil)
  have d2: "dropWhile (\<lambda>c. c \<in> set cs) (rev t @ rev s) = dropWhile (\<lambda>c. c \<in> set cs) (rev s)"
    using assms(4) by (intro dropWhile_append2) auto
  have d3: "dropWhile (\<lambda>c. c \<in> set cs) (rev s) = rev s"
    using assms(3) by (subst r, simp) (simp add: r [symmetric])
  show ?thesis
    by (simp add: py_strip_def d1 d2 d3)
qed

lemma format_2f_shape:
  obtains D a b where
    "format_2f v = (if v < 0 then ''-'' else []) @ D @ CHR ''.'' # [a, b]"
    "D \<noteq> []" "list_all is_digit D" "is_digit a" "is_digit b"
    "real (nat_of_digits D) + real (nat_of_digits [a, b]) / 10 ^ 2
       = real (nat (round_half_even (\<bar>v\<bar> * 100))) / 100"
proof -
  define n where "n = nat (round_half_even (\<bar>v\<bar> * 100))"
  define D where "D = digits_of_nat (n div 100)"
  define a where "a = digit_char (n mod 100 div 10)"
  define b where "b = digit_char (n mod 10)"
  have la: "n mod 100 div 10 < 10" by simp
  have lb: "n mod 10 < 10" by simp
  have ab: "nat_of_digits [a, b] = n mod 100"
  proof -
    have "nat_of_digits [a, b] = 10 * (n mod 100 div 10) + n mod 10"
      by (simp add: nat_of_digits_def a_def b_def digit_char_props(2) [OF la] digit_char_props(2) [OF lb])
    also have "n mod 10 = n mod 100 mod 10"
      by (simp add: mod_mod_cancel)
    finally show ?thesis by simp
  qed
  have val: "real (nat_of_digits D) + real (nat_of_digits [a, b]) / 10 ^ 2 = real n / 100"
  proof -
    have "real n = real (100 * (n div 100) + n mod 100)" by simp
    also have "\<dots> = 100 * real (n div 100) + real (n mod 100)"
      by (simp only: of_nat_add of_nat_mult of_nat_numeral)
    finally have "real n / 100 = real (n div 100) + real (n mod 100) / 100" by simp
    then show ?thesis
      by (simp add: D_def digits_of_nat_props ab)
  qed
  show thesis
  proof (rule that [of D a b])
    show "format_2f v = (if v < 0 then ''-'' else []) @ D @ CHR ''.'' # [a, b]"
      by (simp add: format_2f_def Let_def n_def D_def a_def b_def)
    show "D \<noteq> []" "list_all is_digit D"
      by (simp_all add: D_def digits_of_nat_props)
    show "is_digit a" "is_digit b"
      by (simp_all add: a_def b_def digit_char_props(1) [OF la] digit_char_props(1) [OF lb])
    show "real (nat_of_digits D) + real (nat_of_digits [a, b]) / 10 ^ 2
       = real (nat (round_half_even (\<bar>v\<bar> * 100))) / 100"
      using val by (simp add: n_def)
  qed
qed

lemma py_float_decimal:
  assumes "D \<noteq> []" and "list_all is_digit D" and "list_all is_digit fp"
  shows "py_float (D @ CHR ''.'' # fp)
           = Some (real (nat_of_digits D) + real (nat_of_digits fp) / 10 ^ length fp)"
    and "py_float (CHR ''-'' # D @ CHR ''.'' # fp)
           = Some (- 1 * (real (nat_of_digits D) + real (nat_of_digits fp) / 10 ^ length fp))"
proof -
  let ?s = "D @ CHR ''.'' # fp"
  obtain d D' where D: "D = d # D'" using assms(1) by (cases D) auto
  have dd: "is_digit d" using assms(2) by (simp add: D)
  have nd: "\<not> is_digit (CHR ''.'')" by (simp add: is_digit_def)
  have allD: "\<forall>x\<in>set D. is_digit x" using assms(2) by (simp add: list_all_iff)
  have tw: "takeWhile is_digit ?s = D"
    using allD nd by (simp add: takeWhile_tail)
  have dw: "dropWhile is_digit ?s = CHR ''.'' # fp"
    using allD nd by (simp add: dropWhile_append2)
  have lastok: "last ?s \<notin> set py_whitespace"
  proof (cases fp)
    case Nil
    then show ?thesis by (simp add: py_whitespace_def)
  next
    case (Cons f fs)
    then have "last ?s = last fp" by simp
    moreover have "is_digit (last fp)"
      using assms(3) Cons by (simp add: list_all_iff)
    ultimately show ?thesis by (simp add: is_digit_not_special)
  qed
  have st1: "py_strip py_whitespace ?s = ?s"
    using py_strip_core [of ?s py_whitespace "[]"] lastok dd
    by (simp add: D is_digit_not_special)
  have st2: "py_strip py_whitespace (CHR ''-'' # ?s) = CHR ''-'' # ?s"
    using py_strip_core [of "CHR ''-'' # ?s" py_whitespace "[]"] lastok
    by (simp add: py_whitespace_def)
  have sg1: "split_sign ?s = (False, ?s)"
    using dd by (simp add: split_sign_def D is_digit_not_special)
  have sg2: "split_sign (CHR ''-'' # ?s) = (True, ?s)"
    by (simp add: split_sign_def)
  show "py_float ?s = Some (real (nat_of_digits D) + real (nat_of_digits fp) / 10 ^ length fp)"
    unfolding py_float_def st1 sg1 using assms(1,3)
    by (simp add: tw dw Let_def)
  show "py_float (CHR ''-'' # ?s)
          = Some (- 1 * (real (nat_of_digits D) + real (nat_of_digits fp) / 10 ^ length fp))"
    unfolding py_float_def st2 sg2 using assms(1,3)
    by (simp add: tw dw Let_def)
qed

lemma py_strip_percent_format_2f: "py_strip ''%'' (format_2f v @ ''%'') = format_2f v"
proof -
  obtain D a b where f: "format_2f v = (if v < 0 then ''-'' else []) @ D @ CHR ''.'' # [a, b]"
    and D: "D \<noteq> []" "list_all is_digit D" and ab: "is_digit a" "is_digit b"
    by (rule format_2f_shape)
  obtain d D' where D': "D = d # D'" using D(1) by (cases D) auto
  have dd: "is_digit d" using D(2) by (simp add: D')
  have "format_2f v \<noteq> []" by (simp add: f)
  moreover have "hd (format_2f v) \<notin> set ''%''"
    using dd by (simp add: f D' is_digit_not_special)
  moreover have "last (format_2f v) \<notin> set ''%''"
    using ab by (simp add: f is_digit_not_special)
  ultimately show ?thesis
    by (intro py_strip_core) simp_all
qed

lemma py_float_format_2f: "py_float (format_2f v) = Some (round_2f v)"
proof -
  obtain D a b where f: "format_2f v = (if v < 0 then ''-'' else []) @ D @ CHR ''.'' # [a, b]"
    and D: "D \<noteq> []" "list_all is_digit D" and ab: "is_digit a" "is_digit b"
    and val: "real (nat_of_digits D) + real (nat_of_digits [a, b]) / 10 ^ 2
       = real (nat (round_half_even (\<bar>v\<bar> * 100))) / 100"
    by (rule format_2f_shape)
  have fp: "list_all is_digit [a, b]" using ab by simp
  show ?thesis
  proof (cases "v < 0")
    case True
    then have "format_2f v = CHR ''-'' # D @ CHR ''.'' # [a, b]" by (simp add: f)
    then show ?thesis
      using py_float_decimal(2) [OF D fp] val True by (simp add: round_2f_def)
  next
    case False
    then have "format_2f v = D @ CHR ''.'' # [a, b]" by (simp add: f)
    then show ?thesis
      using py_float_decimal(1) [OF D fp] val False by (simp add: round_2f_def)
  qed
qed

lemma percent_value_format_2f: "percent_value (format_2f v @ ''%'') = Inr (round_2f v)"
  by (simp add: percent_value_def py_strip_percent_format_2f py_float_format_2f)

lemma py_endswith_percent: "py_endswith (s @ ''%'') ''%''"
  by (simp add: py_endswith_def)

lemma round_half_even_error: "\<bar>real_of_int (round_half_even r) - r\<bar> \<le> 1 / 2"
proof -
  have "real_of_int \<lfloor>r\<rfloor> \<le> r" "r < real_of_int \<lfloor>r\<rfloor> + 1" by linarith+
  then show ?thesis
    by (auto simp add: round_half_even_def Let_def)
qed

lemma round_half_even_nonneg: "0 \<le> r \<Longrightarrow> 0 \<le> round_half_even r"
  by (auto simp add: round_half_even_def Let_def)

lemma round_2f_error: "\<bar>round_2f v - v\<bar> \<le> 1 / 200"
proof -
  let ?n = "round_half_even (\<bar>v\<bar> * 100)"
  have nn: "0 \<le> ?n" by (rule round_half_even_nonneg) simp
  have e: "\<bar>real_of_int ?n - \<bar>v\<bar> * 100\<bar> \<le> 1 / 2" by (rule round_half_even_error)
  have r: "real (nat ?n) = real_of_int ?n" using nn by simp
  define m where "m = real_of_int ?n"
  have e': "\<bar>m - \<bar>v\<bar> * 100\<bar> \<le> 1 / 2" using e by (simp add: m_def)
  have v: "round_2f v = (if v < 0 then - 1 else 1) * (m / 100)"
    unfolding round_2f_def r m_def ..
  show ?thesis
    unfolding v using e' by (auto simp add: abs_if split: if_splits)
qed

lemma scaled_abs_diff:
  fixes c a b :: real
  assumes "0 < c"
  shows "c * \<bar>a - b\<bar> = \<bar>c * a - c * b\<bar>"
proof -
  have "\<bar>c * a - c * b\<bar> = \<bar>c * (a - b)\<bar>" by (simp only: right_diff_distrib)
  also have "\<dots> = \<bar>c\<bar> * \<bar>a - b\<bar>" by (rule abs_mult)
  also have "\<bar>c\<bar> = c" using assms by simp
  finally show ?thesis by simp
qed

section \<open>Facts about binary64 rounding\<close>

text \<open>
  \<open>b64\<close> evaluates on a numeral by \<open>b64_eval\<close>. The rounding error of one operation is at
  most \<open>2^-53\<close> of the exact result; the lemmas below follow it through a product, through
  the effective width of a cell and through the origin of a cell.
\<close>

lemmas b64_eval = b64_def pow2_def binade_from.simps Let_def round_half_even_def


lemma pow2_powr: "pow2 e = 2 powr real_of_int e"
  by (simp add: pow2_def powr_realpow [symmetric] powr_minus divide_inverse)

lemma pow2_pos: "0 < pow2 e"
  by (simp add: pow2_powr)

lemma binade_from_log: "0 < x \<Longrightarrow> binade_from x e = e + \<lfloor>log 2 x\<rfloor>"
proof (induction x e rule: binade_from.induct)
  case (1 x e)
  show ?case
  proof (cases "2 \<le> x")
    case True
    have l: "log 2 (x / 2) = log 2 x - 1" using 1(3) by (simp add: log_divide)
    have "\<lfloor>log 2 (x / 2)\<rfloor> = \<lfloor>log 2 x\<rfloor> - 1" unfolding l by linarith
    with 1(1) 1(3) True show ?thesis by (simp add: binade_from.simps [of x e])
  next
    case False
    show ?thesis
    proof (cases "x < 1")
      case True
      have l: "log 2 (x * 2) = log 2 x + 1" using 1(3) by (simp add: log_mult)
      have "\<lfloor>log 2 (x * 2)\<rfloor> = \<lfloor>log 2 x\<rfloor> + 1" unfolding l by linarith
      with 1(2) 1(3) True False show ?thesis by (simp add: binade_from.simps [of x e])
    next
      case ge: False
      have "0 \<le> log 2 x" using ge 1(3) by simp
      moreover have "log 2 x < 1" using False 1(3) by (simp add: log_less_iff)
      ultimately have "\<lfloor>log 2 x\<rfloor> = 0" by linarith
      with False ge 1(3) show ?thesis by (simp add: binade_from.simps [of x e])
    qed
  qed
qed

lemma binade_bounds:
  assumes "x \<noteq> 0"
  shows "pow2 (binade_from \<bar>x\<bar> 0) \<le> \<bar>x\<bar>"
proof -
  have pos: "0 < \<bar>x\<bar>" using assms by simp
  have "2 powr real_of_int \<lfloor>log 2 \<bar>x\<bar>\<rfloor> \<le> 2 powr log 2 \<bar>x\<bar>"
    by (rule powr_mono) simp_all
  also have "\<dots> = \<bar>x\<bar>" using pos by simp
  finally show ?thesis by (simp add: binade_from_log [OF pos] pow2_powr)
qed

lemma pow2_diff: "pow2 (e - 52) = pow2 e / 2 ^ 52"
  by (simp add: pow2_powr powr_diff)

lemma b64_error: "\<bar>b64 x - x\<bar> \<le> \<bar>x\<bar> / 2 ^ 53"
proof (cases "x = 0")
  case True
  then show ?thesis by (simp add: b64_def)
next
  case False
  define u where "u = pow2 (binade_from \<bar>x\<bar> 0 - 52)"
  have upos: "0 < u" by (simp add: u_def pow2_pos)
  have ule: "u \<le> \<bar>x\<bar> / 2 ^ 52"
    using binade_bounds [OF False] by (simp add: u_def pow2_diff divide_right_mono)
  have b: "b64 x = real_of_int (round_half_even (x / u)) * u"
    using False by (simp add: b64_def u_def Let_def)
  have "\<bar>real_of_int (round_half_even (x / u)) - x / u\<bar> \<le> 1 / 2"
    by (rule round_half_even_error)
  then have "\<bar>real_of_int (round_half_even (x / u)) - x / u\<bar> * u \<le> 1 / 2 * u"
    using upos by (simp only: mult_le_cancel_right_pos)
  moreover have "\<bar>real_of_int (round_half_even (x / u)) - x / u\<bar> * u = \<bar>b64 x - x\<bar>"
  proof -
    have "b64 x - x = (real_of_int (round_half_even (x / u)) - x / u) * u"
      using upos by (simp add: b left_diff_distrib)
    then show ?thesis using upos by (simp add: abs_mult)
  qed
  ultimately have "\<bar>b64 x - x\<bar> \<le> u / 2" by simp
  also have "\<dots> \<le> \<bar>x\<bar> / 2 ^ 52 / 2" using ule by simp
  finally show ?thesis by simp
qed

lemma b64_near:
  assumes "\<bar>x - y\<bar> \<le> d"
  shows "\<bar>b64 x - y\<bar> \<le> d + (\<bar>y\<bar> + d) / 2 ^ 53"
proof -
  have "\<bar>x\<bar> \<le> \<bar>y\<bar> + d" using assms by linarith
  then have "\<bar>x\<bar> / 2 ^ 53 \<le> (\<bar>y\<bar> + d) / 2 ^ 53" by (simp add: divide_right_mono)
  with b64_error [of x] have "\<bar>b64 x - x\<bar> \<le> (\<bar>y\<bar> + d) / 2 ^ 53" by linarith
  with assms show ?thesis by linarith
qed

lemma mult_near:
  fixes x y a b :: real
  assumes "\<bar>x - a\<bar> \<le> dx" and "\<bar>y - b\<bar> \<le> dy" and "\<bar>a\<bar> \<le> A" and "\<bar>b\<bar> \<le> B"
  shows "\<bar>x * y - a * b\<bar> \<le> dx * (B + dy) + A * dy"
proof -
  have dx0: "0 \<le> dx" and dy0: "0 \<le> dy" using assms(1,2) by linarith+
  have yb: "\<bar>y\<bar> \<le> B + dy" using assms(2,4) by linarith
  have e: "x * y - a * b = (x - a) * y + a * (y - b)" by (simp add: algebra_simps)
  have "\<bar>(x - a) * y\<bar> \<le> dx * (B + dy)"
    unfolding abs_mult by (rule mult_mono [OF assms(1) yb dx0]) simp
  moreover have "\<bar>a * (y - b)\<bar> \<le> A * dy"
    unfolding abs_mult
    by (rule mult_mono [OF assms(3) assms(2)]) (use assms(3) in \<open>linarith\<close>, simp)
  ultimately show ?thesis unfolding e by linarith
qed

lemma w_error:
  assumes "0 < W" and "0 \<le> a" and "a \<le> 1"
  shows "\<bar>b64 (b64 W * b64 (1 - b64 a)) - W * (1 - a)\<bar> \<le> W / 10 ^ 15"
proof -
  define u :: real where "u = 1 / 2 ^ 53"
  have u0: "0 < u" and u1: "u \<le> 1 / 10 ^ 15" by (simp_all add: u_def)
  have pf: "\<bar>b64 a - a\<bar> \<le> u"
    using b64_error [of a] assms(2,3) by (simp add: u_def field_simps)
  then have "\<bar>(1 - b64 a) - (1 - a)\<bar> \<le> u" by linarith
  from b64_near [OF this] have "\<bar>b64 (1 - b64 a) - (1 - a)\<bar> \<le> u + (\<bar>1 - a\<bar> + u) * u"
    by (simp add: u_def)
  moreover have "\<bar>1 - a\<bar> \<le> 1" using assms(2,3) by linarith
  moreover have "(\<bar>1 - a\<bar> + u) * u \<le> (1 + u) * u"
    using \<open>\<bar>1 - a\<bar> \<le> 1\<close> u0 by (simp add: mult_right_mono)
  moreover have "(1 + u) * u \<le> 2 * u" using u0 u1 by (simp add: mult_right_mono)
  ultimately have om: "\<bar>b64 (1 - b64 a) - (1 - a)\<bar> \<le> 3 * u" by linarith
  have cw: "\<bar>b64 W - W\<bar> \<le> W * u"
    using b64_error [of W] assms(1) by (simp add: u_def)
  have "\<bar>b64 W * b64 (1 - b64 a) - W * (1 - a)\<bar> \<le> W * u * (1 + 3 * u) + W * (3 * u)"
    by (rule mult_near [OF cw om]) (use assms \<open>\<bar>1 - a\<bar> \<le> 1\<close> in simp_all)
  also have "\<dots> = W * (u * (1 + 3 * u) + 3 * u)" by (simp add: algebra_simps)
  also have "\<dots> \<le> W * (5 * u)"
  proof (rule mult_left_mono)
    have "u * (3 * u) \<le> u * 1" using u0 u1 by (intro mult_left_mono) simp_all
    then show "u * (1 + 3 * u) + 3 * u \<le> 5 * u" by (simp add: algebra_simps)
  qed (use assms in simp)
  finally have d: "\<bar>b64 W * b64 (1 - b64 a) - W * (1 - a)\<bar> \<le> W * (5 * u)" .
  have wy: "\<bar>W * (1 - a)\<bar> \<le> W"
  proof -
    have "\<bar>W * (1 - a)\<bar> = W * \<bar>1 - a\<bar>" using assms(1) by (simp add: abs_mult)
    also have "\<dots> \<le> W * 1" using \<open>\<bar>1 - a\<bar> \<le> 1\<close> assms(1) by (intro mult_left_mono) simp_all
    finally show ?thesis by simp
  qed
  from b64_near [OF d] have "\<bar>b64 (b64 W * b64 (1 - b64 a)) - W * (1 - a)\<bar>
      \<le> W * (5 * u) + (\<bar>W * (1 - a)\<bar> + W * (5 * u)) * u"
    by (simp add: u_def)
  also have "\<dots> \<le> W * (5 * u) + (W + W * (5 * u)) * u"
    using wy u0 by (simp add: mult_right_mono)
  also have "\<dots> = W * (5 * u + (1 + 5 * u) * u)" by (simp add: algebra_simps)
  also have "\<dots> \<le> W * (1 / 10 ^ 15)"
  proof (rule mult_left_mono)
    show "5 * u + (1 + 5 * u) * u \<le> 1 / 10 ^ 15" by (simp add: u_def)
  qed (use assms in simp)
  finally show ?thesis by simp
qed

lemma x_error:
  assumes "0 < W" and "W \<le> 100" and "0 \<le> k" and "k * W \<le> 100" and "0 \<le> a" and "a \<le> 1"
  shows "\<bar>b64 (b64 (b64 k * b64 W) + b64 (b64 (b64 W * b64 a) / 2)) - (k * W + W * a / 2)\<bar>
           \<le> 1 / 10 ^ 12"
proof -
  define u :: real where "u = 1 / 2 ^ 53"
  have u0: "0 < u" and u1: "u \<le> 1 / 10 ^ 15" by (simp_all add: u_def)
  have uu: "u * u \<le> u / 10 ^ 15" using u0 u1 by (simp add: mult_left_mono)
  have pf: "\<bar>b64 a - a\<bar> \<le> u"
    using b64_error [of a] assms(5,6) by (simp add: u_def field_simps)
  have cw: "\<bar>b64 W - W\<bar> \<le> W * u"
    using b64_error [of W] assms(1) by (simp add: u_def)
  have kf: "\<bar>b64 k - k\<bar> \<le> k * u"
    using b64_error [of k] assms(3) by (simp add: u_def)
  have "\<bar>b64 k * b64 W - k * W\<bar> \<le> k * u * (W + W * u) + k * (W * u)"
    by (rule mult_near [OF kf cw]) (use assms in simp_all)
  also have "\<dots> = (k * W) * (u * (1 + u) + u)" by (simp add: algebra_simps)
  also have "\<dots> \<le> 100 * (u * (1 + u) + u)"
    using assms(4) u0 by (intro mult_right_mono) (simp_all add: add_nonneg_nonneg)
  also have "\<dots> \<le> 201 * u" using uu u0 by (simp add: algebra_simps)
  finally have p1: "\<bar>b64 k * b64 W - k * W\<bar> \<le> 201 * u" .
  have kw: "\<bar>k * W\<bar> \<le> 100" using assms(1,3,4) by simp
  from b64_near [OF p1] have "\<bar>b64 (b64 k * b64 W) - k * W\<bar> \<le> 201 * u + (\<bar>k * W\<bar> + 201 * u) * u"
    by (simp add: u_def)
  also have "\<dots> \<le> 201 * u + (100 + 201 * u) * u"
    using kw u0 by (simp add: mult_right_mono)
  also have "\<dots> \<le> 302 * u" using uu u0 by (simp add: algebra_simps)
  finally have t1: "\<bar>b64 (b64 k * b64 W) - k * W\<bar> \<le> 302 * u" .
  have "\<bar>b64 W * b64 a - W * a\<bar> \<le> W * u * (1 + u) + W * u"
    by (rule mult_near [OF cw pf]) (use assms in simp_all)
  also have "\<dots> = W * (u * (1 + u) + u)" by (simp add: algebra_simps)
  also have "\<dots> \<le> 100 * (u * (1 + u) + u)"
    using assms(2) u0 by (intro mult_right_mono) (simp_all add: add_nonneg_nonneg)
  also have "\<dots> \<le> 201 * u" using uu u0 by (simp add: algebra_simps)
  finally have p2: "\<bar>b64 W * b64 a - W * a\<bar> \<le> 201 * u" .
  have wa: "\<bar>W * a\<bar> \<le> 100"
  proof -
    have "W * a \<le> W * 1" using assms by (intro mult_left_mono) simp_all
    moreover have "0 \<le> W * a" using assms by simp
    ultimately show ?thesis using assms(2) by simp
  qed
  from b64_near [OF p2] have "\<bar>b64 (b64 W * b64 a) - W * a\<bar> \<le> 201 * u + (\<bar>W * a\<bar> + 201 * u) * u"
    by (simp add: u_def)
  also have "\<dots> \<le> 201 * u + (100 + 201 * u) * u"
    using wa u0 by (simp add: mult_right_mono)
  also have "\<dots> \<le> 302 * u" using uu u0 by (simp add: algebra_simps)
  finally have t2: "\<bar>b64 (b64 W * b64 a) - W * a\<bar> \<le> 302 * u" .
  then have h2: "\<bar>b64 (b64 W * b64 a) / 2 - W * a / 2\<bar> \<le> 151 * u" by linarith
  from b64_near [OF h2] have "\<bar>b64 (b64 (b64 W * b64 a) / 2) - W * a / 2\<bar>
      \<le> 151 * u + (\<bar>W * a / 2\<bar> + 151 * u) * u"
    by (simp add: u_def)
  also have "\<dots> \<le> 151 * u + (50 + 151 * u) * u"
    using wa u0 by (simp add: mult_right_mono)
  also have "\<dots> \<le> 202 * u" using uu u0 by (simp add: algebra_simps)
  finally have t3: "\<bar>b64 (b64 (b64 W * b64 a) / 2) - W * a / 2\<bar> \<le> 202 * u" .
  have s: "\<bar>(b64 (b64 k * b64 W) + b64 (b64 (b64 W * b64 a) / 2)) - (k * W + W * a / 2)\<bar> \<le> 504 * u"
    using t1 t3 by linarith
  have tot: "\<bar>k * W + W * a / 2\<bar> \<le> 150" using kw wa by linarith
  from b64_near [OF s] have "\<bar>b64 (b64 (b64 k * b64 W) + b64 (b64 (b64 W * b64 a) / 2))
        - (k * W + W * a / 2)\<bar> \<le> 504 * u + (\<bar>k * W + W * a / 2\<bar> + 504 * u) * u"
    by (simp add: u_def)
  also have "\<dots> \<le> 504 * u + (150 + 504 * u) * u"
    using tot u0 by (simp add: mult_right_mono)
  also have "\<dots> \<le> 1 / 10 ^ 12" by (simp add: u_def)
  finally show ?thesis .
qed

section \<open>Properties of the position resolver\<close>

lemma percent_50: "py_endswith ''50%'' ''%'' \<and> py_float (py_strip ''%'' ''50%'') = Some 50"
  by (simp add: parse_eval)

text \<open>
  C1 (as stated). The claim reads: with no alignment, a percentage resolves to exactly
  \<open>percent / 100 * referenceSize\<close>. The reference size is the slide dimension in EMU and the
  resolver returns inches, so at 50 percent of 9144000 EMU the result is 5 and not
  4572000.
\<close>

theorem convert_position_units_counterexample:
  "convert_position \<lparr>slide_width = 9144000, slide_height = 6858000\<rparr> (PStr ''50%'') 9144000 True None
     \<noteq> Inr (50 / 100 * 9144000)"
  by (simp add: convert_position_def percent_50)

text \<open>
  C1 (amended). For every percentage string and every slide dimension, on both axes, the
  resolver called without an alignment returns exactly
  \<open>percent / 100 * (referenceSize / 914400)\<close>: the percentage of the reference size,
  converted from EMU to inches.
\<close>

theorem convert_position_percent_plain:
  assumes "py_endswith s ''%''" and "py_float (py_strip ''%'' s) = Some percent"
  shows "convert_position self (PStr s) slide_dimension is_width None
           = Inr (percent / 100 * (real_of_int slide_dimension / 914400))"
  using assms by (simp add: convert_position_def)

theorem convert_position_percent_plain_witness:
  "py_endswith ''50%'' ''%'' \<and> py_float (py_strip ''%'' ''50%'') = Some 50 \<and>
   convert_position \<lparr>slide_width = 9144000, slide_height = 6858000\<rparr> (PStr ''50%'') 9144000 False None
     = Inr 5"
proof -
  have e: "py_endswith ''50%'' ''%''" using percent_50 by simp
  have f: "py_float (py_strip ''%'' ''50%'') = Some 50" using percent_50 by simp
  from convert_position_percent_plain [OF e f] e f show ?thesis by simp
qed

text \<open>
  The centred branch of \<open>convert_position_b64\<close> on a slide whose cached height is not zero.
\<close>

lemma convert_b64_center_unfold:
  assumes "py_endswith s ''%''" and "py_float (py_strip ''%'' s) = Some literal"
    and "slide_height self \<noteq> 0"
  shows "convert_position_b64 self (PStr s) slide_dimension True (Some ''center'') =
     (let base = b64 (b64 (b64 literal / 100) * b64 (real_of_int slide_dimension / 914400));
          current_ratio = b64 (real_of_int (slide_width self) / real_of_int (slide_height self));
          standard_ratio = b64 (16 / 9)
      in if \<bar>b64 (current_ratio - standard_ratio)\<bar> \<le> b64 0.01 then Inr base
         else Inr (b64 (base * b64 (1 + b64 (b64 (b64 (current_ratio / standard_ratio) - 1) * 0.5)))))"
  using assms by (simp add: convert_position_b64_def py_truediv_b64_def Let_def not_less)

lemma convert_b64_center_corrected:
  assumes "py_endswith s ''%''" and "py_float (py_strip ''%'' s) = Some literal"
    and "b64 literal = percent" and "b64 (percent / 100) = p100"
    and "b64 (real_of_int slide_dimension / 914400) = inches" and "b64 (p100 * inches) = base"
    and "slide_height self \<noteq> 0"
    and "b64 (real_of_int (slide_width self) / real_of_int (slide_height self)) = cr"
    and "b64 (16 / 9) = sr" and "b64 (cr - sr) = df" and "b64 0.01 = t" and "t < \<bar>df\<bar>"
    and "b64 (cr / sr) = q" and "b64 (q - 1) = q1" and "b64 (q1 * 0.5) = adj"
    and "b64 (1 + adj) = one" and "b64 (base * one) = res"
  shows "convert_position_b64 self (PStr s) slide_dimension True (Some ''center'') = Inr res"
  unfolding convert_b64_center_unfold [OF assms(1,2,7)] Let_def assms(3-6) assms(8-11) assms(13-17)
  using assms(12) by simp

text \<open>
  C2 (as stated). The claim reads: when the ambient ratio is within 0.01 of 16/9 the result
  is the uncorrected base calculation. On a slide of 12260580 by 6858000 EMU the ratio is
  16/9 + 0.01 exactly, so it is within 0.01 of 16/9, and so is the binary64 number that the
  division returns. The code subtracts the binary64 numbers next to the ratio and to 16/9
  and compares with the binary64 number next to 0.01, finds the difference larger, and
  applies the correction: 50 percent of 9144000 EMU resolves to 5.0140625000000005 and not to
  the base 5.
\<close>

theorem convert_position_boundary_counterexample:
  "convert_position_b64 \<lparr>slide_width = 12260580, slide_height = 6858000\<rparr> (PStr ''50%'') 9144000 True
     (Some ''center'') = Inr (5645332501653095 / 1125899906842624) \<and>
   \<bar>12260580 / 6858000 - 16 / 9\<bar> \<le> (0.01 :: real) \<and>
   b64 (12260580 / 6858000) = 8051435333821253 / 4503599627370496 \<and>
   \<bar>8051435333821253 / 4503599627370496 - 16 / 9\<bar> \<le> (0.01 :: real) \<and>
   (5645332501653095 / 1125899906842624 :: real) \<noteq> 50 / 100 * (9144000 / 914400)"
proof -
  let ?self = "\<lparr>slide_width = 12260580, slide_height = 6858000\<rparr>"
  have "convert_position_b64 ?self (PStr ''50%'') 9144000 True (Some ''center'')
          = Inr (5645332501653095 / 1125899906842624)"
  proof (rule convert_b64_center_corrected)
    show "py_endswith ''50%'' ''%''" using percent_50 by simp
    show "py_float (py_strip ''%'' ''50%'') = Some 50" using percent_50 by simp
    show "b64 50 = 50" by (simp add: b64_eval)
    show "b64 (50 / 100) = 1 / 2" by (simp add: b64_eval)
    show "b64 (real_of_int 9144000 / 914400) = 10" by (simp add: b64_eval)
    show "b64 (1 / 2 * 10) = 5" by (simp add: b64_eval)
    show "slide_height ?self \<noteq> 0" by simp
    show "b64 (real_of_int (slide_width ?self) / real_of_int (slide_height ?self))
            = 8051435333821253 / 4503599627370496" by (simp add: b64_eval)
    show "b64 (16 / 9) = 2001599834386887 / 1125899906842624" by (simp add: b64_eval)
    show "b64 (8051435333821253 / 4503599627370496 - 2001599834386887 / 1125899906842624)
            = 45035996273705 / 4503599627370496" by (simp add: b64_eval)
    show "b64 0.01 = 5764607523034235 / 576460752303423488" by (simp add: b64_eval)
    show "(5764607523034235 / 576460752303423488 :: real) < \<bar>45035996273705 / 4503599627370496\<bar>"
      by simp
    show "b64 (8051435333821253 / 4503599627370496 / (2001599834386887 / 1125899906842624))
            = 4528932375274455 / 4503599627370496" by (simp add: b64_eval)
    show "b64 (4528932375274455 / 4503599627370496 - 1) = 25332747903959 / 4503599627370496"
      by (simp add: b64_eval)
    show "b64 (25332747903959 / 4503599627370496 * 0.5) = 25332747903959 / 9007199254740992"
      by (simp add: b64_eval)
    show "b64 (1 + 25332747903959 / 9007199254740992) = 1129066500330619 / 1125899906842624"
      by (simp add: b64_eval)
    show "b64 (5 * (1129066500330619 / 1125899906842624)) = 5645332501653095 / 1125899906842624"
      by (simp add: b64_eval)
  qed
  moreover have "b64 (12260580 / 6858000) = 8051435333821253 / 4503599627370496"
    by (simp add: b64_eval)
  ultimately show ?thesis by simp
qed

lemma ratio_test_stable:
  fixes r :: real
  assumes "\<bar>r\<bar> \<le> 1000"
  shows "\<bar>r - 16 / 9\<bar> \<le> 0.01 - 1 / 10 ^ 12 \<Longrightarrow> \<bar>b64 (b64 r - b64 (16 / 9))\<bar> \<le> b64 0.01"
    and "0.01 + 1 / 10 ^ 12 \<le> \<bar>r - 16 / 9\<bar> \<Longrightarrow> \<not> \<bar>b64 (b64 r - b64 (16 / 9))\<bar> \<le> b64 0.01"
proof -
  have e1: "\<bar>b64 r - r\<bar> \<le> 1000 / 2 ^ 53"
    using b64_error [of r] assms by (simp add: divide_right_mono order_trans)
  have e2: "\<bar>b64 (16 / 9) - 16 / 9\<bar> \<le> 2 / 2 ^ 53"
    using b64_error [of "16 / 9"] by simp
  have d: "\<bar>(b64 r - b64 (16 / 9)) - (r - 16 / 9)\<bar> \<le> 1002 / 2 ^ 53"
    using e1 e2 by linarith
  have big: "\<bar>r - 16 / 9\<bar> \<le> 1002" using assms by linarith
  from b64_near [OF d] have "\<bar>b64 (b64 r - b64 (16 / 9)) - (r - 16 / 9)\<bar>
      \<le> 1002 / 2 ^ 53 + (\<bar>r - 16 / 9\<bar> + 1002 / 2 ^ 53) / 2 ^ 53" .
  also have "\<dots> \<le> 1002 / 2 ^ 53 + (1002 + 1002 / 2 ^ 53) / 2 ^ 53"
    using big by (simp add: divide_right_mono)
  also have "\<dots> \<le> 1 / (4 * 10 ^ 12)" by simp
  finally have f: "\<bar>b64 (b64 r - b64 (16 / 9)) - (r - 16 / 9)\<bar> \<le> 1 / (4 * 10 ^ 12)" .
  have t: "b64 0.01 = 5764607523034235 / 576460752303423488"
    by (simp add: b64_eval)
  have t1: "0.01 - 1 / 10 ^ 12 + 1 / (4 * 10 ^ 12) \<le> (5764607523034235 / 576460752303423488 :: real)"
    by simp
  have t2: "(5764607523034235 / 576460752303423488 :: real) < 0.01 + 1 / 10 ^ 12 - 1 / (4 * 10 ^ 12)"
    by simp
  show "\<bar>r - 16 / 9\<bar> \<le> 0.01 - 1 / 10 ^ 12 \<Longrightarrow> \<bar>b64 (b64 r - b64 (16 / 9))\<bar> \<le> b64 0.01"
    unfolding t using f t1 by linarith
  show "0.01 + 1 / 10 ^ 12 \<le> \<bar>r - 16 / 9\<bar> \<Longrightarrow> \<not> \<bar>b64 (b64 r - b64 (16 / 9))\<bar> \<le> b64 0.01"
    unfolding t using f t2 by linarith
qed

text \<open>
  C2 (amended). A percentage resolved with alignment \<open>center\<close> on the horizontal axis, on a
  slide whose cached height is not zero (so that the ambient ratio exists). The test is made
  on binary64 numbers: when \<open>\<bar>fl(fl(width / height) - fl(16/9))\<bar> \<le> fl(0.01)\<close> the result is the
  uncorrected base calculation, otherwise it is \<open>base * (1 + (ratio / (16/9) - 1) * 0.5)\<close>,
  every operation rounded to binary64. For a ratio of absolute value at most 1000 the test
  agrees with the comparison of the exact ratio: a ratio within \<open>0.01 - 10^-12\<close> of 16/9 gives
  the base, a ratio at least \<open>0.01 + 10^-12\<close> away from 16/9 gives the corrected value. Closer
  to the threshold the rounding decides.
\<close>

theorem convert_position_b64_center:
  assumes "py_endswith s ''%''" and "py_float (py_strip ''%'' s) = Some literal"
    and "slide_height self \<noteq> 0"
  shows "(let base = b64 (b64 (b64 literal / 100) * b64 (real_of_int slide_dimension / 914400));
              current_ratio = b64 (real_of_int (slide_width self) / real_of_int (slide_height self));
              standard_ratio = b64 (16 / 9);
              corrected = b64 (base * b64 (1 + b64 (b64 (b64 (current_ratio / standard_ratio) - 1) * 0.5)));
              exact_ratio = real_of_int (slide_width self) / real_of_int (slide_height self)
          in convert_position_b64 self (PStr s) slide_dimension True (Some ''center'') =
               (if \<bar>b64 (current_ratio - standard_ratio)\<bar> \<le> b64 0.01 then Inr base
                else Inr corrected) \<and>
             (\<bar>exact_ratio\<bar> \<le> 1000 \<and> \<bar>exact_ratio - 16 / 9\<bar> \<le> 0.01 - 1 / 10 ^ 12 \<longrightarrow>
                convert_position_b64 self (PStr s) slide_dimension True (Some ''center'') = Inr base) \<and>
             (\<bar>exact_ratio\<bar> \<le> 1000 \<and> 0.01 + 1 / 10 ^ 12 \<le> \<bar>exact_ratio - 16 / 9\<bar> \<longrightarrow>
                convert_position_b64 self (PStr s) slide_dimension True (Some ''center'')
                  = Inr corrected))"
proof -
  let ?r = "real_of_int (slide_width self) / real_of_int (slide_height self)"
  let ?conv = "convert_position_b64 self (PStr s) slide_dimension True (Some ''center'')"
  let ?base = "b64 (b64 (b64 literal / 100) * b64 (real_of_int slide_dimension / 914400))"
  let ?corrected = "b64 (?base * b64 (1 + b64 (b64 (b64 (b64 ?r / b64 (16 / 9)) - 1) * 0.5)))"
  let ?test = "\<bar>b64 (b64 ?r - b64 (16 / 9))\<bar> \<le> b64 0.01"
  have u: "?conv = (if ?test then Inr ?base else Inr ?corrected)"
    using convert_b64_center_unfold [OF assms, of slide_dimension] by (simp only: Let_def)
  have c2: "\<bar>?r\<bar> \<le> 1000 \<and> \<bar>?r - 16 / 9\<bar> \<le> 0.01 - 1 / 10 ^ 12 \<longrightarrow> ?conv = Inr ?base"
  proof
    assume "\<bar>?r\<bar> \<le> 1000 \<and> \<bar>?r - 16 / 9\<bar> \<le> 0.01 - 1 / 10 ^ 12"
    then have ?test using ratio_test_stable(1) [of ?r] by blast
    then show "?conv = Inr ?base" by (simp only: u if_True)
  qed
  have c3: "\<bar>?r\<bar> \<le> 1000 \<and> 0.01 + 1 / 10 ^ 12 \<le> \<bar>?r - 16 / 9\<bar> \<longrightarrow> ?conv = Inr ?corrected"
  proof
    assume "\<bar>?r\<bar> \<le> 1000 \<and> 0.01 + 1 / 10 ^ 12 \<le> \<bar>?r - 16 / 9\<bar>"
    then have "\<not> ?test" using ratio_test_stable(2) [of ?r] by blast
    then show "?conv = Inr ?corrected" by (simp only: u if_False)
  qed
  show ?thesis
    unfolding Let_def by (intro conjI) (rule u, rule c2, rule c3)
qed

theorem convert_position_b64_center_witness:
  "py_endswith ''50%'' ''%'' \<and> py_float (py_strip ''%'' ''50%'') = Some 50 \<and>
   slide_height \<lparr>slide_width = 12192000, slide_height = 6858000\<rparr> \<noteq> 0 \<and>
   slide_height \<lparr>slide_width = 9144000, slide_height = 6858000\<rparr> \<noteq> 0 \<and>
   \<bar>12192000 / 6858000\<bar> \<le> (1000 :: real) \<and>
   \<bar>12192000 / 6858000 - 16 / 9\<bar> \<le> (0.01 - 1 / 10 ^ 12 :: real) \<and>
   \<bar>9144000 / 6858000\<bar> \<le> (1000 :: real) \<and>
   (0.01 + 1 / 10 ^ 12 :: real) \<le> \<bar>9144000 / 6858000 - 16 / 9\<bar> \<and>
   convert_position_b64 \<lparr>slide_width = 12192000, slide_height = 6858000\<rparr> (PStr ''50%'') 9144000 True
     (Some ''center'') = Inr 5 \<and>
   convert_position_b64 \<lparr>slide_width = 9144000, slide_height = 6858000\<rparr> (PStr ''50%'') 9144000 True
     (Some ''center'') = Inr (35 / 8)"
proof -
  have e: "py_endswith ''50%'' ''%''" using percent_50 by simp
  have f: "py_float (py_strip ''%'' ''50%'') = Some 50" using percent_50 by simp
  have h1: "slide_height \<lparr>slide_width = 12192000, slide_height = 6858000\<rparr> \<noteq> 0" by simp
  have h2: "slide_height \<lparr>slide_width = 9144000, slide_height = 6858000\<rparr> \<noteq> 0" by simp
  have r1: "\<bar>12192000 / 6858000\<bar> \<le> (1000 :: real)"
    "\<bar>12192000 / 6858000 - 16 / 9\<bar> \<le> (0.01 - 1 / 10 ^ 12 :: real)" by simp_all
  have r2: "\<bar>9144000 / 6858000\<bar> \<le> (1000 :: real)"
    "(0.01 + 1 / 10 ^ 12 :: real) \<le> \<bar>9144000 / 6858000 - 16 / 9\<bar>" by simp_all
  note t1 = convert_position_b64_center [OF e f h1, of 9144000, unfolded Let_def]
  note t2 = convert_position_b64_center [OF e f h2, of 9144000, unfolded Let_def]
  have a: "convert_position_b64 \<lparr>slide_width = 12192000, slide_height = 6858000\<rparr> (PStr ''50%'')
             9144000 True (Some ''center'')
           = Inr (b64 (b64 (b64 50 / 100) * b64 (real_of_int 9144000 / 914400)))"
    by (rule t1 [THEN conjunct2, THEN conjunct1, THEN mp]) simp
  have b: "convert_position_b64 \<lparr>slide_width = 9144000, slide_height = 6858000\<rparr> (PStr ''50%'')
             9144000 True (Some ''center'')
           = Inr (b64 (b64 (b64 (b64 50 / 100) * b64 (real_of_int 9144000 / 914400))
                * b64 (1 + b64 (b64 (b64 (b64 (real_of_int (slide_width
                    \<lparr>slide_width = 9144000, slide_height = 6858000\<rparr>) / real_of_int (slide_height
                    \<lparr>slide_width = 9144000, slide_height = 6858000\<rparr>)) / b64 (16 / 9)) - 1) * 0.5))))"
    by (rule t2 [THEN conjunct2, THEN conjunct2, THEN mp]) simp
  have base: "b64 (b64 (b64 50 / 100) * b64 (real_of_int 9144000 / 914400)) = 5"
    by (simp add: b64_eval)
  have ratio: "b64 (real_of_int (slide_width \<lparr>slide_width = 9144000, slide_height = 6858000\<rparr>)
                 / real_of_int (slide_height \<lparr>slide_width = 9144000, slide_height = 6858000\<rparr>))
               = 6004799503160661 / 4503599627370496"
    by (simp add: b64_eval)
  have corr: "b64 (5 * b64 (1 + b64 (b64 (b64 (6004799503160661 / 4503599627370496 / b64 (16 / 9)) - 1) * 0.5)))
                = 35 / 8"
    by (simp add: b64_eval)
  have a': "convert_position_b64 \<lparr>slide_width = 12192000, slide_height = 6858000\<rparr> (PStr ''50%'')
             9144000 True (Some ''center'') = Inr 5"
    unfolding a base ..
  have b': "convert_position_b64 \<lparr>slide_width = 9144000, slide_height = 6858000\<rparr> (PStr ''50%'')
             9144000 True (Some ''center'') = Inr (35 / 8)"
    unfolding b base ratio corr ..
  show ?thesis
    using e f r1 r2 a' b' by simp
qed

text \<open>
  C7 (as stated). The claim reads: with a zero or a negative ambient height the centred
  resolver falls back to the uncorrected base calculation. A negative height raises
  nothing, so the fallback is not taken: the ratio is negative and the correction is
  applied. On a slide of width 9144000 and height -6858000, 50 percent of 9144000 resolves
  to 5/8, neither the base value in inches nor \<open>percent / 100 * referenceSize\<close>.
\<close>

theorem convert_position_negative_height_counterexample:
  "convert_position \<lparr>slide_width = 9144000, slide_height = - 6858000\<rparr> (PStr ''50%'') 9144000 True
     (Some ''center'') = Inr (5 / 8) \<and>
   (5 / 8 :: real) \<noteq> 50 / 100 * (9144000 / 914400) \<and> (5 / 8 :: real) \<noteq> 50 / 100 * 9144000"
  by (simp add: convert_position_def percent_50 py_truediv_def)

text \<open>
  C7 (amended). A percentage resolved with alignment \<open>center\<close> on the horizontal axis never
  raises, whatever the ambient height is; when the ambient height is zero the result is
  the uncorrected base calculation \<open>percent / 100 * (referenceSize / 914400)\<close>.
\<close>

theorem convert_position_center_never_raises:
  assumes "py_endswith s ''%''" and "py_float (py_strip ''%'' s) = Some percent"
  shows "(\<exists>r. convert_position self (PStr s) slide_dimension True (Some ''center'') = Inr r) \<and>
         (slide_height self = 0 \<longrightarrow>
            convert_position self (PStr s) slide_dimension True (Some ''center'')
              = Inr (percent / 100 * (real_of_int slide_dimension / 914400)))"
proof -
  let ?c = "convert_position self (PStr s) slide_dimension True (Some ''center'')"
  let ?b = "percent / 100 * (real_of_int slide_dimension / 914400)"
  let ?r = "real_of_int (slide_width self) / real_of_int (slide_height self)"
  have eq: "?c = Inr (if slide_height self = 0 then ?b
                      else if \<bar>?r - 16 / 9\<bar> > 0.01 then ?b * (1 + (?r / (16 / 9) - 1) * 0.5)
                      else ?b)"
    using assms by (simp add: convert_position_def py_truediv_def Let_def)
  have "\<exists>r. ?c = Inr r"
    unfolding eq by blast
  moreover have "slide_height self = 0 \<longrightarrow> ?c = Inr ?b"
    unfolding eq by simp
  ultimately show ?thesis by (rule conjI)
qed

theorem convert_position_center_never_raises_witness:
  "py_endswith ''50%'' ''%'' \<and> py_float (py_strip ''%'' ''50%'') = Some 50 \<and>
   slide_height \<lparr>slide_width = 9144000, slide_height = 0\<rparr> = 0 \<and>
   convert_position \<lparr>slide_width = 9144000, slide_height = 0\<rparr> (PStr ''50%'') 9144000 True
     (Some ''center'') = Inr 5"
proof -
  have e: "py_endswith ''50%'' ''%''" using percent_50 by simp
  have f: "py_float (py_strip ''%'' ''50%'') = Some 50" using percent_50 by simp
  from convert_position_center_never_raises
         [OF e f, of "\<lparr>slide_width = 9144000, slide_height = 0\<rparr>" 9144000] e f
  show ?thesis by simp
qed

lemma py_int_25_5: "py_int (py_strip ''%'' ''25.5%'') = None"
  by (simp add: parse_eval)

lemma py_float_25_5:
  "py_endswith ''25.5%'' ''%'' \<and> py_float (py_strip ''%'' ''25.5%'') = Some (51 / 2)"
  by (simp add: parse_eval)

text \<open>
  C9. With \<open>h_align\<close> unset and \<open>x = "25.5%"\<close>, \<open>add_image\<close> raises \<open>ValueError\<close> on every
  slide and for every other argument, because its default-alignment test reads the
  percent text with \<open>int\<close>; \<open>add_text\<close> accepts the same \<open>x\<close> and resolves it to 25.5
  percent of the slide width.
\<close>

theorem add_image_fractional_percent:
  "add_image self (PStr ''25.5%'') y width height None = Inl ValueError \<and>
   add_text self (PStr ''25.5%'') (PNum 1) (PNum 8) (PNum 1) ''left'' None
     = Inr (51 / 2 / 100 * (real_of_int (slide_width self) / 914400), 1, 8, 1)"
  by (simp add: add_image_def add_text_def convert_position_def py_int_25_5 py_float_25_5)

section \<open>Properties of grid construction\<close>

lemma create_cells_zero:
  "rows = 0 \<or> cols = 0 \<Longrightarrow> create_cells rows cols padding = Inl ZeroDivisionError"
  by (auto simp add: create_cells_def Let_def)

lemma create_cells_nonzero:
  assumes "rows \<noteq> 0" and "cols \<noteq> 0"
  shows "create_cells rows cols padding =
     Inr (map (\<lambda>row. map (\<lambda>col.
            GridCell (int row) (int col)
              (format_2f (real col * (100 / real_of_int cols)
                 + 100 / real_of_int cols * (padding / 100) / 2) @ ''%'')
              (format_2f (real row * (100 / real_of_int rows)
                 + 100 / real_of_int rows * (padding / 100) / 2) @ ''%'')
              (format_2f (100 / real_of_int cols * (1 - padding / 100)) @ ''%'')
              (format_2f (100 / real_of_int rows * (1 - padding / 100)) @ ''%''))
          [0..<nat cols]) [0..<nat rows])"
  by (simp only: create_cells_def Let_def assms if_False)

text \<open>
  C10 (as stated). The claim reads: every grid that constructs successfully has
  \<open>rows \<ge> 1\<close> and \<open>cols \<ge> 1\<close>. Negative counts divide without error and
  \<^verbatim>\<open>range\<close> of a negative count is empty, so a grid with \<open>rows = -1\<close> and \<open>cols = -1\<close> is
  constructed, with no cells.
\<close>

theorem Grid_negative_counts_counterexample:
  "(Grid (PStr ''0%'') (PStr ''0%'') (PStr ''100%'') (PStr ''100%'') (- 1) (- 1) 5 (Some ''center'')
      :: py_error + unit grid)
   = Inr \<lparr>grid_x = PStr ''0%'', grid_y = PStr ''0%'', grid_width = PStr ''100%'',
          grid_height = PStr ''100%'', grid_rows = - 1, grid_cols = - 1, grid_padding = 5,
          grid_h_align = Some ''center'', cells = []\<rparr>"
  by (simp add: Grid_def create_cells_def)

text \<open>
  C10 (amended). Constructing a grid with \<open>rows = 0\<close> or \<open>cols = 0\<close> fails with
  \<open>ZeroDivisionError\<close>, not with an error of the grid's own; with both counts different
  from zero the construction succeeds and keeps the counts; so every grid that constructs
  successfully has \<open>rows \<noteq> 0\<close> and \<open>cols \<noteq> 0\<close>.
\<close>

theorem Grid_zero_counts:
  "(rows = 0 \<or> cols = 0 \<longrightarrow>
      (Grid x y width height rows cols padding h_align :: py_error + 'a grid)
        = Inl ZeroDivisionError) \<and>
   (rows \<noteq> 0 \<and> cols \<noteq> 0 \<longrightarrow>
      (\<exists>g :: 'a grid. Grid x y width height rows cols padding h_align = Inr g \<and>
         grid_rows g = rows \<and> grid_cols g = cols)) \<and>
   (\<forall>g :: 'a grid. Grid x y width height rows cols padding h_align = Inr g
      \<longrightarrow> rows \<noteq> 0 \<and> cols \<noteq> 0)"
proof (cases "rows = 0 \<or> cols = 0")
  case True
  from create_cells_zero [OF True, of padding, where ?'a = 'a] True show ?thesis
    by (auto simp add: Grid_def)
next
  case False
  then show ?thesis
    by (simp add: Grid_def create_cells_nonzero)
qed

theorem Grid_zero_counts_witness:
  "(Grid (PStr ''0%'') (PStr ''0%'') (PStr ''100%'') (PStr ''100%'') 0 2 5 (Some ''center'')
      :: py_error + unit grid) = Inl ZeroDivisionError \<and>
   (Grid (PStr ''0%'') (PStr ''0%'') (PStr ''100%'') (PStr ''100%'') 2 0 5 (Some ''center'')
      :: py_error + unit grid) = Inl ZeroDivisionError \<and>
   (\<exists>g :: unit grid.
      Grid (PStr ''0%'') (PStr ''0%'') (PStr ''100%'') (PStr ''100%'') 2 2 5 (Some ''center'') = Inr g
       \<and> grid_rows g = 2 \<and> grid_cols g = 2)"
  using
    Grid_zero_counts [of 0 2 "PStr ''0%''" "PStr ''0%''" "PStr ''100%''" "PStr ''100%''" 5
      "Some ''center''", where ?'a = unit]
    Grid_zero_counts [of 2 0 "PStr ''0%''" "PStr ''0%''" "PStr ''100%''" "PStr ''100%''" 5
      "Some ''center''", where ?'a = unit]
    Grid_zero_counts [of 2 2 "PStr ''0%''" "PStr ''0%''" "PStr ''100%''" "PStr ''100%''" 5
      "Some ''center''", where ?'a = unit]
  by simp

lemma create_cells_b64_nonzero:
  assumes "rows \<noteq> 0" and "cols \<noteq> 0"
  shows "create_cells_b64 rows cols padding =
     Inr (map (\<lambda>row. map (\<lambda>col.
            GridCell (int row) (int col)
              (format_2f (b64 (b64 (b64 (real col) * b64 (100 / real_of_int cols))
                 + b64 (b64 (b64 (100 / real_of_int cols) * b64 (padding / 100)) / 2))) @ ''%'')
              (format_2f (b64 (b64 (b64 (real row) * b64 (100 / real_of_int rows))
                 + b64 (b64 (b64 (100 / real_of_int rows) * b64 (padding / 100)) / 2))) @ ''%'')
              (format_2f (b64 (b64 (100 / real_of_int cols) * b64 (1 - b64 (padding / 100)))) @ ''%'')
              (format_2f (b64 (b64 (100 / real_of_int rows) * b64 (1 - b64 (padding / 100)))) @ ''%''))
          [0..<nat cols]) [0..<nat rows])"
  by (simp only: create_cells_b64_def Let_def assms if_False)

lemma b64_thirds:
  "b64 0 = 0" "b64 1 = 1" "b64 2 = 2" "b64 100 = 100"
  "b64 (100 / 3) = 4691249611844267 / 140737488355328"
  "b64 (4691249611844267 / 140737488355328) = 4691249611844267 / 140737488355328"
  "b64 (4691249611844267 / 70368744177664) = 4691249611844267 / 70368744177664"
  by (simp_all add: b64_eval)

lemma format_2f_b64_thirds:
  "format_2f 0 = ''0.00''" "format_2f (4691249611844267 / 140737488355328) = ''33.33''"
  "format_2f (4691249611844267 / 70368744177664) = ''66.67''" "format_2f 100 = ''100.00''"
  by (simp_all add: fmt_eval)

lemma create_cells_b64_1_3:
  "(create_cells_b64 1 3 0 :: py_error + 'a grid_cell list list)
   = Inr [ [GridCell 0 0 ''0.00%'' ''0.00%'' ''33.33%'' ''100.00%'',
           GridCell 0 1 ''33.33%'' ''0.00%'' ''33.33%'' ''100.00%'',
           GridCell 0 2 ''66.67%'' ''0.00%'' ''33.33%'' ''100.00%''] ]"
  by (simp add: create_cells_b64_nonzero upt_conv_Cons b64_thirds format_2f_b64_thirds)

lemma percent_value_33_33: "percent_value ''33.33%'' = Inr (3333 / 100)"
  by (simp add: parse_eval)

text \<open>
  C5 (as stated). The claim reads: every cell stores the value of the formula as its x. The
  cells store text with two decimals, so in a grid of one row and three columns without
  padding the cell of column 1 stores \<^verbatim>\<open>33.33%\<close>, which reads back as 33.33 and not as
  100/3.
\<close>

theorem create_cells_b64_rounding_counterexample:
  "(create_cells_b64 1 3 0 :: py_error + unit grid_cell list list)
   = Inr [ [GridCell 0 0 ''0.00%'' ''0.00%'' ''33.33%'' ''100.00%'',
           GridCell 0 1 ''33.33%'' ''0.00%'' ''33.33%'' ''100.00%'',
           GridCell 0 2 ''66.67%'' ''0.00%'' ''33.33%'' ''100.00%''] ] \<and>
   percent_value ''33.33%'' = Inr (3333 / 100) \<and>
   (3333 / 100 :: real) \<noteq> 1 * (100 / 3) + (100 / 3) * (0 / 100) / 2"
  by (simp add: create_cells_b64_1_3 percent_value_33_33)

lemma Grid_b64_cell_at:
  assumes "1 \<le> rows" and "1 \<le> cols" and "0 \<le> row" and "row < rows" and "0 \<le> col" and "col < cols"
  shows "\<exists>g. Grid_b64 x y width height rows cols padding h_align = Inr g \<and>
           grid_rows g = rows \<and> grid_cols g = cols \<and>
           cells g ! nat row ! nat col =
             GridCell row col
              (format_2f (b64 (b64 (b64 (real_of_int col) * b64 (100 / real_of_int cols))
                 + b64 (b64 (b64 (100 / real_of_int cols) * b64 (padding / 100)) / 2))) @ ''%'')
              (format_2f (b64 (b64 (b64 (real_of_int row) * b64 (100 / real_of_int rows))
                 + b64 (b64 (b64 (100 / real_of_int rows) * b64 (padding / 100)) / 2))) @ ''%'')
              (format_2f (b64 (b64 (100 / real_of_int cols) * b64 (1 - b64 (padding / 100)))) @ ''%'')
              (format_2f (b64 (b64 (100 / real_of_int rows) * b64 (1 - b64 (padding / 100)))) @ ''%'')"
proof -
  have nz: "rows \<noteq> 0" "cols \<noteq> 0" using assms(1,2) by simp_all
  have r: "nat row < nat rows" and c: "nat col < nat cols" using assms by simp_all
  show ?thesis
    using r c assms(3,5) by (simp add: Grid_b64_def create_cells_b64_nonzero [OF nz])
qed

lemma stored_near:
  assumes "\<bar>v - e\<bar> \<le> 1 / 10 ^ 12"
  shows "\<bar>round_2f v - e\<bar> \<le> 0.005 + 1 / 10 ^ 12"
proof -
  have "(0.005 :: real) = 1 / 200" by simp
  with round_2f_error [of v] assms show ?thesis by linarith
qed

lemma x_percent_near:
  assumes "1 \<le> cols" and "0 \<le> col" and "col < cols" and "0 \<le> padding" and "padding \<le> 100"
  shows "\<bar>round_2f (b64 (b64 (b64 (real_of_int col) * b64 (100 / real_of_int cols))
                 + b64 (b64 (b64 (100 / real_of_int cols) * b64 (padding / 100)) / 2)))
          - (real_of_int col * (100 / real_of_int cols)
               + (100 / real_of_int cols) * (padding / 100) / 2)\<bar> \<le> 0.005 + 1 / 10 ^ 12"
proof (rule stored_near, rule x_error)
  have cp: "1 \<le> real_of_int cols" using assms(1) by simp
  show "0 < 100 / real_of_int cols" using cp by simp
  show "100 / real_of_int cols \<le> 100" using cp by (simp add: field_simps)
  show "0 \<le> real_of_int col" using assms(2) by simp
  have "real_of_int col \<le> real_of_int cols" using assms(3) by simp
  then show "real_of_int col * (100 / real_of_int cols) \<le> 100" using cp by (simp add: field_simps)
  show "0 \<le> padding / 100" "padding / 100 \<le> 1" using assms(4,5) by simp_all
qed

lemma width_percent_near:
  assumes "1 \<le> cols" and "0 \<le> padding" and "padding \<le> 100"
  shows "\<bar>round_2f (b64 (b64 (100 / real_of_int cols) * b64 (1 - b64 (padding / 100))))
          - (100 / real_of_int cols) * (1 - padding / 100)\<bar> \<le> 0.005 + 1 / 10 ^ 12"
proof (rule stored_near)
  have cp: "1 \<le> real_of_int cols" using assms(1) by simp
  have w: "0 < 100 / real_of_int cols" using cp by simp
  have "100 / real_of_int cols \<le> 100" using cp by (simp add: field_simps)
  then have "100 / real_of_int cols / 10 ^ 15 \<le> 1 / 10 ^ 12" by simp
  moreover have "\<bar>b64 (b64 (100 / real_of_int cols) * b64 (1 - b64 (padding / 100)))
      - 100 / real_of_int cols * (1 - padding / 100)\<bar> \<le> 100 / real_of_int cols / 10 ^ 15"
    by (rule w_error [OF w]) (use assms(2,3) in simp_all)
  ultimately show "\<bar>b64 (b64 (100 / real_of_int cols) * b64 (1 - b64 (padding / 100)))
      - 100 / real_of_int cols * (1 - padding / 100)\<bar> \<le> 1 / 10 ^ 12"
    by (rule order_trans [rotated])
qed

lemma b64_instances:
  "b64 (b64 (b64 0 * b64 50) + b64 (b64 (b64 50 * b64 (1 / 10)) / 2)) = 5 / 2"
  "b64 (b64 50 * b64 (1 - b64 (1 / 10))) = 45"
  "b64 (b64 (b64 10 * b64 (25 / 3)) + b64 (b64 (b64 (25 / 3) * b64 (7 / 100)) / 2))
     = 5884586231857153 / 70368744177664"
  by (simp_all add: b64_eval)

lemma format_2f_instances:
  "format_2f (5 / 2) = ''2.50''" "format_2f 45 = ''45.00''"
  "format_2f (5884586231857153 / 70368744177664) = ''83.63''"
  by (simp_all add: fmt_eval)

text \<open>
  C5 (amended). For every grid constructed with \<open>rows \<ge> 1\<close>, \<open>cols \<ge> 1\<close> and any padding
  \<open>p\<close>, the cell \<open>(row, col)\<close> stores four texts, relative to the grid's own container: the
  binary64 values of \<open>col * (100/c) + (100/c) * (p/100) / 2\<close>,
  \<open>row * (100/r) + (100/r) * (p/100) / 2\<close>, \<open>(100/c) * (1 - p/100)\<close> and
  \<open>(100/r) * (1 - p/100)\<close>, computed operation by operation, each printed with two decimals
  and a percent sign, so that each reads back as the binary64 value rounded to the nearest
  hundredth. For \<open>0 \<le> p \<le> 100\<close> each stored number is within \<open>0.005 + 10^-12\<close> of the exact
  value of its formula. In a 2x2 grid with padding 10 the cell (0,0) has \<open>x = "2.50%"\<close> and
  \<open>width = "45.00%"\<close>; in a grid of 12 columns with padding 7 the cells of column 10 have
  \<open>x = "83.63%"\<close>, the exact value 83.625 being computed as 83.62500000000001.
\<close>

theorem Grid_b64_cell_geometry:
  assumes "1 \<le> rows" and "1 \<le> cols" and "0 \<le> row" and "row < rows" and "0 \<le> col" and "col < cols"
  shows "\<exists>g cell. Grid_b64 x y width height rows cols padding h_align = Inr g \<and>
           get_cell g row col = Inr cell \<and>
           (let cell_width_percent = b64 (100 / real_of_int cols);
                cell_height_percent = b64 (100 / real_of_int rows);
                padding_factor = b64 (padding / 100);
                x_percent = b64 (b64 (b64 (real_of_int col) * cell_width_percent)
                              + b64 (b64 (cell_width_percent * padding_factor) / 2));
                y_percent = b64 (b64 (b64 (real_of_int row) * cell_height_percent)
                              + b64 (b64 (cell_height_percent * padding_factor) / 2));
                effective_cell_width = b64 (cell_width_percent * b64 (1 - padding_factor));
                effective_cell_height = b64 (cell_height_percent * b64 (1 - padding_factor))
            in cell_x cell = format_2f x_percent @ ''%'' \<and>
               cell_y cell = format_2f y_percent @ ''%'' \<and>
               cell_width cell = format_2f effective_cell_width @ ''%'' \<and>
               cell_height cell = format_2f effective_cell_height @ ''%'' \<and>
               percent_value (cell_x cell) = Inr (round_2f x_percent) \<and>
               percent_value (cell_y cell) = Inr (round_2f y_percent) \<and>
               percent_value (cell_width cell) = Inr (round_2f effective_cell_width) \<and>
               percent_value (cell_height cell) = Inr (round_2f effective_cell_height) \<and>
               (0 \<le> padding \<and> padding \<le> 100 \<longrightarrow>
                  \<bar>round_2f x_percent - (real_of_int col * (100 / real_of_int cols)
                      + (100 / real_of_int cols) * (padding / 100) / 2)\<bar> \<le> 0.005 + 1 / 10 ^ 12 \<and>
                  \<bar>round_2f y_percent - (real_of_int row * (100 / real_of_int rows)
                      + (100 / real_of_int rows) * (padding / 100) / 2)\<bar> \<le> 0.005 + 1 / 10 ^ 12 \<and>
                  \<bar>round_2f effective_cell_width - (100 / real_of_int cols) * (1 - padding / 100)\<bar>
                    \<le> 0.005 + 1 / 10 ^ 12 \<and>
                  \<bar>round_2f effective_cell_height - (100 / real_of_int rows) * (1 - padding / 100)\<bar>
                    \<le> 0.005 + 1 / 10 ^ 12)) \<and>
           (rows = 2 \<and> cols = 2 \<and> padding = 10 \<and> row = 0 \<and> col = 0 \<longrightarrow>
              cell_x cell = ''2.50%'' \<and> cell_width cell = ''45.00%'') \<and>
           (cols = 12 \<and> padding = 7 \<and> col = 10 \<longrightarrow> cell_x cell = ''83.63%'')"
proof -
  let ?xv = "b64 (b64 (b64 (real_of_int col) * b64 (100 / real_of_int cols))
                 + b64 (b64 (b64 (100 / real_of_int cols) * b64 (padding / 100)) / 2))"
  let ?yv = "b64 (b64 (b64 (real_of_int row) * b64 (100 / real_of_int rows))
                 + b64 (b64 (b64 (100 / real_of_int rows) * b64 (padding / 100)) / 2))"
  let ?wv = "b64 (b64 (100 / real_of_int cols) * b64 (1 - b64 (padding / 100)))"
  let ?hv = "b64 (b64 (100 / real_of_int rows) * b64 (1 - b64 (padding / 100)))"
  from Grid_b64_cell_at [OF assms, of x y width height padding h_align, where ?'a = 'a]
  obtain g :: "'a grid" where g: "Grid_b64 x y width height rows cols padding h_align = Inr g"
    "grid_rows g = rows" "grid_cols g = cols"
    and cell: "cells g ! nat row ! nat col =
             GridCell row col (format_2f ?xv @ ''%'') (format_2f ?yv @ ''%'')
               (format_2f ?wv @ ''%'') (format_2f ?hv @ ''%'')"
    by blast
  have gc: "get_cell g row col = Inr (cells g ! nat row ! nat col)"
    using assms g(2,3) by (simp add: get_cell_def cell_at_def)
  let ?cell = "cells g ! nat row ! nat col"
  have geo: "cell_x ?cell = format_2f ?xv @ ''%''" "cell_y ?cell = format_2f ?yv @ ''%''"
    "cell_width ?cell = format_2f ?wv @ ''%''" "cell_height ?cell = format_2f ?hv @ ''%''"
    unfolding cell by (simp_all only: GridCell_def grid_cell.simps)
  have val: "percent_value (cell_x ?cell) = Inr (round_2f ?xv)"
    "percent_value (cell_y ?cell) = Inr (round_2f ?yv)"
    "percent_value (cell_width ?cell) = Inr (round_2f ?wv)"
    "percent_value (cell_height ?cell) = Inr (round_2f ?hv)"
    unfolding geo by (rule percent_value_format_2f)+
  have near: "0 \<le> padding \<and> padding \<le> 100 \<longrightarrow>
                  \<bar>round_2f ?xv - (real_of_int col * (100 / real_of_int cols)
                      + (100 / real_of_int cols) * (padding / 100) / 2)\<bar> \<le> 0.005 + 1 / 10 ^ 12 \<and>
                  \<bar>round_2f ?yv - (real_of_int row * (100 / real_of_int rows)
                      + (100 / real_of_int rows) * (padding / 100) / 2)\<bar> \<le> 0.005 + 1 / 10 ^ 12 \<and>
                  \<bar>round_2f ?wv - (100 / real_of_int cols) * (1 - padding / 100)\<bar>
                    \<le> 0.005 + 1 / 10 ^ 12 \<and>
                  \<bar>round_2f ?hv - (100 / real_of_int rows) * (1 - padding / 100)\<bar>
                    \<le> 0.005 + 1 / 10 ^ 12"
  proof
    assume p: "0 \<le> padding \<and> padding \<le> 100"
    then have p1: "0 \<le> padding" and p2: "padding \<le> 100" by simp_all
    show "\<bar>round_2f ?xv - (real_of_int col * (100 / real_of_int cols)
                      + (100 / real_of_int cols) * (padding / 100) / 2)\<bar> \<le> 0.005 + 1 / 10 ^ 12 \<and>
                  \<bar>round_2f ?yv - (real_of_int row * (100 / real_of_int rows)
                      + (100 / real_of_int rows) * (padding / 100) / 2)\<bar> \<le> 0.005 + 1 / 10 ^ 12 \<and>
                  \<bar>round_2f ?wv - (100 / real_of_int cols) * (1 - padding / 100)\<bar>
                    \<le> 0.005 + 1 / 10 ^ 12 \<and>
                  \<bar>round_2f ?hv - (100 / real_of_int rows) * (1 - padding / 100)\<bar>
                    \<le> 0.005 + 1 / 10 ^ 12"
      by (intro conjI x_percent_near [OF assms(2,5,6) p1 p2] x_percent_near [OF assms(1,3,4) p1 p2]
          width_percent_near [OF assms(2) p1 p2] width_percent_near [OF assms(1) p1 p2])
  qed
  have ex1: "rows = 2 \<and> cols = 2 \<and> padding = 10 \<and> row = 0 \<and> col = 0 \<longrightarrow>
              cell_x ?cell = ''2.50%'' \<and> cell_width ?cell = ''45.00%''"
    unfolding geo by (simp add: b64_instances format_2f_instances)
  have ex2: "cols = 12 \<and> padding = 7 \<and> col = 10 \<longrightarrow> cell_x ?cell = ''83.63%''"
    unfolding geo by (simp add: b64_instances format_2f_instances)
  show ?thesis
    unfolding Let_def using g(1) gc geo val near ex1 ex2 by blast
qed

theorem Grid_b64_cell_geometry_witness:
  "(1::int) \<le> 2 \<and> (0::int) \<le> 0 \<and> (0::int) < 2 \<and> (0::real) \<le> 10 \<and> (10::real) \<le> 100 \<and>
   (\<exists>(g :: unit grid) cell.
      Grid_b64 (PStr ''0%'') (PStr ''0%'') (PStr ''100%'') (PStr ''100%'') 2 2 10 (Some ''center'') = Inr g \<and>
      get_cell g 0 0 = Inr cell \<and> cell_x cell = ''2.50%'' \<and> cell_width cell = ''45.00%'' \<and>
      percent_value (cell_x cell) = Inr (round_2f (5 / 2)) \<and>
      \<bar>round_2f (5 / 2) - (0 * (100 / 2) + (100 / 2) * (10 / 100) / 2)\<bar> \<le> (0.005 + 1 / 10 ^ 12 :: real))"
proof -
  have h: "(1::int) \<le> 2" "(0::int) \<le> 0" "(0::int) < 2" by simp_all
  from Grid_b64_cell_geometry [OF h(1) h(1) h(2) h(3) h(2) h(3), of "PStr ''0%''" "PStr ''0%''"
      "PStr ''100%''" "PStr ''100%''" 10 "Some ''center''", where ?'a = unit]
  show ?thesis by (auto simp add: Let_def b64_instances)
qed

lemma stored_width_sum_replicate:
  assumes "map (\<lambda>cell. percent_value (cell_width cell)) cs = replicate n (Inr v)"
  shows "stored_width_sum cs = real n * v"
proof -
  have "map (\<lambda>cell. case percent_value (cell_width cell) of Inr v \<Rightarrow> v | Inl _ \<Rightarrow> 0) cs
      = map (\<lambda>r. case r of Inr v \<Rightarrow> v | Inl _ \<Rightarrow> (0::real))
          (map (\<lambda>cell. percent_value (cell_width cell)) cs)"
    by (simp add: comp_def)
  also have "\<dots> = replicate n v" unfolding assms by simp
  finally show ?thesis by (simp add: stored_width_sum_def sum_list_replicate)
qed

lemma row_sum_near:
  fixes c :: real
  assumes "1 \<le> c" and "0 \<le> padding" and "padding \<le> 100"
  shows "\<bar>c * round_2f (b64 (b64 (100 / c) * b64 (1 - b64 (padding / 100))))
           - 100 * (1 - padding / 100)\<bar> \<le> c * 0.005 + 1 / 10 ^ 12"
proof -
  let ?ew = "b64 (b64 (100 / c) * b64 (1 - b64 (padding / 100)))"
  let ?w = "100 / c * (1 - padding / 100)"
  have cp: "0 < c" using assms(1) by simp
  have w: "0 < 100 / c" using cp by simp
  have e1: "\<bar>?ew - ?w\<bar> \<le> 100 / c / 10 ^ 15"
    by (rule w_error [OF w]) (use assms(2,3) in simp_all)
  have e2: "\<bar>round_2f ?ew - ?ew\<bar> \<le> 1 / 200" by (rule round_2f_error)
  have "\<bar>round_2f ?ew - ?w\<bar> \<le> 1 / 200 + 100 / c / 10 ^ 15" using e1 e2 by linarith
  then have "c * \<bar>round_2f ?ew - ?w\<bar> \<le> c * (1 / 200 + 100 / c / 10 ^ 15)"
    using cp by (simp only: mult_le_cancel_left_pos)
  moreover have "c * \<bar>round_2f ?ew - ?w\<bar> = \<bar>c * round_2f ?ew - c * ?w\<bar>"
    by (rule scaled_abs_diff [OF cp])
  moreover have "c * ?w = 100 * (1 - padding / 100)" using cp by simp
  moreover have "c * (1 / 200 + 100 / c / 10 ^ 15) = c * 0.005 + 1 / 10 ^ 13"
    using cp by (simp add: field_simps)
  ultimately have "\<bar>c * round_2f ?ew - 100 * (1 - padding / 100)\<bar> \<le> c * 0.005 + 1 / 10 ^ 13"
    by simp
  then show ?thesis by simp
qed

lemma b64_width_instance: "b64 (b64 (25 / 2) * b64 (1 - b64 (43 / 100))) = 8022036836253697 / 1125899906842624"
  by (simp add: b64_eval)

lemma format_2f_width_instance: "format_2f (8022036836253697 / 1125899906842624) = ''7.13''"
  by (simp add: fmt_eval)

lemma percent_value_7_13: "percent_value ''7.13%'' = Inr (713 / 100)"
  by (simp add: parse_eval)

text \<open>
  C8 (as stated). The claim reads: the stored widths of one row sum to
  \<open>100 * (1 - p/100)\<close>. In a grid of one row and three columns without padding each stored
  width is \<^verbatim>\<open>33.33%\<close>, and the three of them sum to 99.99 and not to 100.
\<close>

theorem row_width_sum_b64_counterexample:
  "map_sum id (map stored_width_sum) (create_cells_b64 1 3 0 :: py_error + unit grid_cell list list)
     = Inr [9999 / 100] \<and>
   (9999 / 100 :: real) \<noteq> 100 * (1 - 0 / 100)"
  by (simp add: create_cells_b64_1_3 stored_width_sum_def percent_value_33_33 GridCell_def)

text \<open>
  C8 (amended). For every freshly constructed grid with \<open>rows \<ge> 1\<close>, \<open>cols = c \<ge> 1\<close> and
  padding \<open>p\<close>, the \<open>c\<close> cells of a row all store the same width: the binary64 value of
  \<open>(100/c) * (1 - p/100)\<close> printed with two decimals. The sum of the \<open>c\<close> stored widths is
  \<open>c\<close> times that number, and for \<open>0 \<le> p \<le> 100\<close> it differs from \<open>100 * (1 - p/100)\<close> by
  at most \<open>c * 0.005 + 10^-12\<close>. With 8 columns and padding 43 every stored width is
  \<^verbatim>\<open>7.13%\<close> and the sum is 57.04, against 57.
\<close>

theorem row_width_sum_b64:
  assumes "1 \<le> rows" and "1 \<le> cols" and "0 \<le> row" and "row < rows"
  shows "\<exists>g. Grid_b64 x y width height rows cols padding h_align = Inr g \<and>
           (let effective_cell_width
                  = b64 (b64 (100 / real_of_int cols) * b64 (1 - b64 (padding / 100)))
            in map cell_width (cells g ! nat row)
                 = replicate (nat cols) (format_2f effective_cell_width @ ''%'') \<and>
               map (\<lambda>cell. percent_value (cell_width cell)) (cells g ! nat row)
                 = replicate (nat cols) (Inr (round_2f effective_cell_width)) \<and>
               stored_width_sum (cells g ! nat row)
                 = real_of_int cols * round_2f effective_cell_width \<and>
               (0 \<le> padding \<and> padding \<le> 100 \<longrightarrow>
                  \<bar>stored_width_sum (cells g ! nat row) - 100 * (1 - padding / 100)\<bar>
                    \<le> real_of_int cols * 0.005 + 1 / 10 ^ 12)) \<and>
           (cols = 8 \<and> padding = 43 \<longrightarrow>
              map cell_width (cells g ! nat row) = replicate 8 ''7.13%'' \<and>
              stored_width_sum (cells g ! nat row) = 5704 / 100)"
proof -
  let ?ew = "b64 (b64 (100 / real_of_int cols) * b64 (1 - b64 (padding / 100)))"
  have nz: "rows \<noteq> 0" "cols \<noteq> 0" using assms(1,2) by simp_all
  have r: "nat row < nat rows" using assms by simp
  have cp: "1 \<le> real_of_int cols" using assms(2) by simp
  have cn: "real (nat cols) = real_of_int cols" using assms(2) by simp
  define cs :: "'a grid_cell list list" where "cs = map (\<lambda>row. map (\<lambda>col.
            GridCell (int row) (int col)
              (format_2f (b64 (b64 (b64 (real col) * b64 (100 / real_of_int cols))
                 + b64 (b64 (b64 (100 / real_of_int cols) * b64 (padding / 100)) / 2))) @ ''%'')
              (format_2f (b64 (b64 (b64 (real row) * b64 (100 / real_of_int rows))
                 + b64 (b64 (b64 (100 / real_of_int rows) * b64 (padding / 100)) / 2))) @ ''%'')
              (format_2f (b64 (b64 (100 / real_of_int cols) * b64 (1 - b64 (padding / 100)))) @ ''%'')
              (format_2f (b64 (b64 (100 / real_of_int rows) * b64 (1 - b64 (padding / 100)))) @ ''%''))
          [0..<nat cols]) [0..<nat rows]"
  define g :: "'a grid" where "g = \<lparr>grid_x = x, grid_y = y, grid_width = width,
          grid_height = height, grid_rows = rows, grid_cols = cols, grid_padding = padding,
          grid_h_align = h_align, cells = cs\<rparr>"
  have g: "Grid_b64 x y width height rows cols padding h_align = Inr g"
    unfolding g_def cs_def by (simp only: Grid_b64_def create_cells_b64_nonzero [OF nz] sum.case)
  have "map cell_width (cs ! nat row) = replicate (nat cols) (format_2f ?ew @ ''%'')"
    unfolding cs_def using r by (simp add: GridCell_def comp_def map_replicate_const)
  then have texts: "map cell_width (cells g ! nat row) = replicate (nat cols) (format_2f ?ew @ ''%'')"
    by (simp add: g_def)
  have "map (\<lambda>cell. percent_value (cell_width cell)) (cs ! nat row)
      = replicate (nat cols) (Inr (round_2f ?ew))"
    unfolding cs_def using r
    by (simp add: GridCell_def percent_value_format_2f comp_def map_replicate_const)
  then have widths: "map (\<lambda>cell. percent_value (cell_width cell)) (cells g ! nat row)
      = replicate (nat cols) (Inr (round_2f ?ew))"
    by (simp add: g_def)
  have total: "stored_width_sum (cells g ! nat row) = real_of_int cols * round_2f ?ew"
    using stored_width_sum_replicate [OF widths] by (simp only: cn)
  have close: "0 \<le> padding \<and> padding \<le> 100 \<longrightarrow>
      \<bar>stored_width_sum (cells g ! nat row) - 100 * (1 - padding / 100)\<bar>
        \<le> real_of_int cols * 0.005 + 1 / 10 ^ 12"
  proof
    assume "0 \<le> padding \<and> padding \<le> 100"
    then have p1: "0 \<le> padding" and p2: "padding \<le> 100" by simp_all
    show "\<bar>stored_width_sum (cells g ! nat row) - 100 * (1 - padding / 100)\<bar>
        \<le> real_of_int cols * 0.005 + 1 / 10 ^ 12"
      unfolding total by (rule row_sum_near [OF cp p1 p2])
  qed
  have r713: "round_2f (8022036836253697 / 1125899906842624) = 713 / 100"
    using percent_value_format_2f [of "8022036836253697 / 1125899906842624"]
    by (simp only: format_2f_width_instance append.simps percent_value_7_13 sum.inject)
  have ex: "cols = 8 \<and> padding = 43 \<longrightarrow>
              map cell_width (cells g ! nat row) = replicate 8 ''7.13%'' \<and>
              stored_width_sum (cells g ! nat row) = 5704 / 100"
    unfolding total texts
    by (simp add: b64_width_instance format_2f_width_instance r713)
  show ?thesis
    unfolding Let_def using g texts widths total close ex by blast
qed

theorem row_width_sum_b64_witness:
  "(1::int) \<le> 1 \<and> (1::int) \<le> 8 \<and> (0::int) \<le> 0 \<and> (0::int) < 1 \<and> (0::real) \<le> 43 \<and> (43::real) \<le> 100 \<and>
   (\<exists>g :: unit grid. Grid_b64 (PStr ''0%'') (PStr ''0%'') (PStr ''100%'') (PStr ''100%'') 1 8 43
        (Some ''center'') = Inr g \<and>
      map cell_width (cells g ! 0) = replicate 8 ''7.13%'' \<and>
      stored_width_sum (cells g ! 0) = 5704 / 100 \<and>
      \<bar>stored_width_sum (cells g ! 0) - 100 * (1 - 43 / 100)\<bar> \<le> 8 * 0.005 + 1 / 10 ^ 12)"
  using row_width_sum_b64 [of 1 8 0 "PStr ''0%''" "PStr ''0%''" "PStr ''100%''" "PStr ''100%''" 43
    "Some ''center''", where ?'a = unit]
  by (auto simp add: Let_def)

section \<open>Properties of merging\<close>

lemma upto_01: "[0..1] = [0, 1::int]" "[0..0] = [0::int]"
  by (simp_all add: upto.simps)

text \<open>
  C3. In every 3x3 grid the range (0,0)-(1,1) is merged, then the range (0,0)-(0,0). The
  second call does not fail with \<open>CellMergeError\<close>: the scan only looks at \<open>is_spanned\<close>,
  which is false for the origin cell of a merge. It returns the origin cell with both spans
  reset to 1, while the three cells absorbed by the first merge stay spanned.
\<close>

theorem merge_cells_origin_remerge:
  "\<exists>g g1 c1 g2 c2.
      (Grid x y width height 3 3 padding h_align :: py_error + 'a grid) = Inr g \<and>
      merge_cells g 0 0 1 1 = Inr (g1, c1) \<and> span_rows c1 = 2 \<and> span_cols c1 = 2 \<and>
      merge_cells g1 0 0 0 0 = Inr (g2, c2) \<and> span_rows c2 = 1 \<and> span_cols c2 = 1 \<and>
      map (map is_spanned) (cells g2)
        = [ [False, True, False], [True, True, False], [False, False, False] ]"
  by (simp add: Grid_def create_cells_nonzero merge_cells_def cell_at_def set_cell_def upto_01
        upt_conv_Cons GridCell_def percent_value_format_2f Let_def)

section \<open>Properties of the automatic grid\<close>

text \<open>
  C4. With an empty list of content functions \<open>autogrid\<close> returns the grid that
  \<open>Grid\<close> builds from the geometry alone. The \<open>rows\<close> and \<open>cols\<close> arguments are not passed
  on: called with \<open>rows = 2\<close> and \<open>cols = 3\<close> it returns a 1x1 grid with one empty cell.
\<close>

theorem autogrid_empty_ignores_rows_cols:
  "map_sum id (\<lambda>g. (grid_rows g, grid_cols g, map (map content) (cells g)))
     (autogrid parent [] (Some 2) (Some 3) x y width height padding h_align title title_height)
   = Inr (1, 1, [ [None] ])"
  by (simp add: autogrid_def Grid_def create_cells_def GridCell_def)

lemma not_isl_Inr: "\<not> isl x \<Longrightarrow> \<exists>v. x = Inr v"
  by (cases x) simp_all

lemma grid_ready_cell:
  assumes "grid_ready g R C" and "i < R" and "j < C"
  shows "length (cells g ! i) = C" and "cell_ready (cells g ! i ! j)"
proof -
  from assms(1) have len: "length (cells g) = R"
    and all: "\<forall>row\<in>set (cells g). length row = C \<and> (\<forall>c\<in>set row. cell_ready c)"
    by (simp_all add: grid_ready_def list_all_iff)
  from len assms(2) have "cells g ! i \<in> set (cells g)" by simp
  with all have r: "length (cells g ! i) = C" "\<forall>c\<in>set (cells g ! i). cell_ready c" by auto
  show "length (cells g ! i) = C" by (rule r(1))
  from r assms(3) show "cell_ready (cells g ! i ! j)" by simp
qed

lemma add_to_cell_ready:
  assumes "grid_ready g R C" and "i < R" and "j < C"
  shows "add_to_cell g (int i) (int j) (\<lambda>kwargs. func ()) Map.empty
           = Inr (set_cell g (int i) (int j) ((cells g ! i ! j)\<lparr>content := Some (func ())\<rparr>), func ())"
proof -
  let ?cell = "cells g ! i ! j"
  have b: "\<not> (int i < 0 \<or> int i \<ge> grid_rows g \<or> int j < 0 \<or> int j \<ge> grid_cols g)"
    using assms by (simp add: grid_ready_def)
  have gc: "get_cell g (int i) (int j) = Inr ?cell"
    using b by (simp add: get_cell_def cell_at_def)
  from grid_ready_cell(2) [OF assms] have cr: "cell_ready ?cell" .
  then have ns: "\<not> is_spanned ?cell" by (simp add: cell_ready_def)
  from cr obtain cx cy cw ch where
    c: "percent_value (cell_x ?cell) = Inr cx" "percent_value (cell_y ?cell) = Inr cy"
       "percent_value (cell_width ?cell) = Inr cw" "percent_value (cell_height ?cell) = Inr ch"
    unfolding cell_ready_def by (meson not_isl_Inr)
  from assms(1) obtain gx gy gw gh where
    g: "grid_origin_percent (grid_x g) 10 = Inr gx" "grid_origin_percent (grid_y g) 13.333 = Inr gy"
       "grid_size_percent (grid_width g) = Inr gw" "grid_size_percent (grid_height g) = Inr gh"
    unfolding grid_ready_def by (meson not_isl_Inr)
  show ?thesis
    unfolding add_to_cell_def gc using ns c g by (simp add: Let_def)
qed

lemma set_cell_fields [simp]:
  "grid_rows (set_cell g r c x) = grid_rows g" "grid_cols (set_cell g r c x) = grid_cols g"
  "grid_x (set_cell g r c x) = grid_x g" "grid_y (set_cell g r c x) = grid_y g"
  "grid_width (set_cell g r c x) = grid_width g" "grid_height (set_cell g r c x) = grid_height g"
  "grid_padding (set_cell g r c x) = grid_padding g" "grid_h_align (set_cell g r c x) = grid_h_align g"
  by (simp_all add: set_cell_def)

lemma set_cell_nth:
  assumes "length (cells g) = R" and "i < R" and "j < length (cells g ! i)" and "r < R"
  shows "cells (set_cell g (int i) (int j) x) ! r ! c
           = (if r = i \<and> c = j then x else cells g ! r ! c)"
  using assms by (auto simp add: set_cell_def nth_list_update)

lemma set_cell_ready:
  assumes "grid_ready g R C" and "i < R" and "j < C" and "cell_ready x"
  shows "grid_ready (set_cell g (int i) (int j) x) R C"
proof -
  from assms(1) have len: "length (cells g) = R"
    and all: "\<forall>row\<in>set (cells g). length row = C \<and> (\<forall>c\<in>set row. cell_ready c)"
    by (simp_all add: grid_ready_def list_all_iff)
  have row: "length (cells g ! i) = C" "\<forall>c\<in>set (cells g ! i). cell_ready c"
    using all len assms(2) by (auto simp add: all_set_conv_all_nth)
  let ?row = "(cells g ! i)[j := x]"
  have r1: "length ?row = C \<and> (\<forall>c\<in>set ?row. cell_ready c)"
    using row assms(4) by (auto dest: set_update_subset_insert [THEN subsetD])
  have "\<forall>rw\<in>set ((cells g)[i := ?row]). length rw = C \<and> (\<forall>c\<in>set rw. cell_ready c)"
    using all r1 by (auto dest!: set_update_subset_insert [THEN subsetD])
  then show ?thesis
    using assms(1) by (simp add: grid_ready_def list_all_iff set_cell_def)
qed

lemma lin_index_eq:
  fixes C :: nat
  assumes "c < C" and "j < C"
  shows "r * C + c = i * C + j \<longleftrightarrow> r = i \<and> c = j"
proof
  assume e: "r * C + c = i * C + j"
  then have "(r * C + c) div C = (i * C + j) div C" and "(r * C + c) mod C = (i * C + j) mod C"
    by simp_all
  with assms show "r = i \<and> c = j" by simp
qed simp

lemma place_content_step:
  assumes "grid_ready g R C" and "i < R" and "j < C"
  shows "place_content g (int R) (int C) (int i) (int j) (f # rest) =
     (let g1 = set_cell g (int i) (int j) ((cells g ! i ! j)\<lparr>content := Some (f ())\<rparr>)
      in if Suc j < C then place_content g1 (int R) (int C) (int i) (int j + 1) rest
         else if Suc i < R then place_content g1 (int R) (int C) (int i + 1) 0 rest
         else Inr g1)"
  using assms(2,3) by (simp add: add_to_cell_ready [OF assms] Let_def)


lemma place_content_ready:
  assumes "grid_ready g R C" and "i < R" and "j < C" and "i * C + j + length rest \<le> R * C"
  shows "\<exists>g'. place_content g (int R) (int C) (int i) (int j) rest = Inr g' \<and> grid_ready g' R C \<and>
      (\<forall>r<R. \<forall>c<C. content (cells g' ! r ! c) =
         (if i * C + j \<le> r * C + c \<and> r * C + c < i * C + j + length rest
          then Some ((rest ! (r * C + c - (i * C + j))) ())
          else content (cells g ! r ! c)))"
  using assms
proof (induction rest arbitrary: g i j)
  case Nil
  then show ?case by auto
next
  case (Cons f rest)
  let ?cell = "(cells g ! i ! j)\<lparr>content := Some (f ())\<rparr>"
  let ?g1 = "set_cell g (int i) (int j) ?cell"
  have old: "cell_ready (cells g ! i ! j)"
    by (rule grid_ready_cell(2) [OF Cons.prems(1-3)])
  then have "cell_ready ?cell" by (simp add: cell_ready_def)
  then have ready1: "grid_ready ?g1 R C"
    by (rule set_cell_ready [OF Cons.prems(1-3)])
  have len: "length (cells g) = R" using Cons.prems(1) by (simp add: grid_ready_def)
  have rowlen: "j < length (cells g ! i)"
    using grid_ready_cell(1) [OF Cons.prems(1-3)] Cons.prems(3) by simp
  have c1: "content (cells ?g1 ! r ! c) = (if r = i \<and> c = j then Some (f ()) else content (cells g ! r ! c))"
    if "r < R" for r c
    using set_cell_nth [OF len Cons.prems(2) rowlen that, of ?cell c] by simp
  have step: "place_content g (int R) (int C) (int i) (int j) (f # rest) =
     (if Suc j < C then place_content ?g1 (int R) (int C) (int i) (int j + 1) rest
      else if Suc i < R then place_content ?g1 (int R) (int C) (int i + 1) 0 rest
      else Inr ?g1)"
    using place_content_step [OF Cons.prems(1-3), of f rest] by (simp add: Let_def)
  consider (same_row) "Suc j < C" | (next_row) "Suc j = C" "Suc i < R" | (last) "Suc j = C" "Suc i = R"
    using Cons.prems(2,3) by linarith
  then show ?case
  proof cases
    case same_row
    have cap: "i * C + Suc j + length rest \<le> R * C" using Cons.prems(4) by simp
    from Cons.IH [OF ready1 Cons.prems(2) same_row cap] obtain g' where
      r: "place_content ?g1 (int R) (int C) (int i) (int (Suc j)) rest = Inr g'" "grid_ready g' R C"
      and ct: "\<forall>r<R. \<forall>c<C. content (cells g' ! r ! c) =
         (if i * C + Suc j \<le> r * C + c \<and> r * C + c < i * C + Suc j + length rest
          then Some ((rest ! (r * C + c - (i * C + Suc j))) ())
          else content (cells ?g1 ! r ! c))"
      by blast
    have "place_content g (int R) (int C) (int i) (int j) (f # rest) = Inr g'"
      using step same_row r(1) by (simp add: add.commute)
    moreover have "content (cells g' ! r ! c) =
         (if i * C + j \<le> r * C + c \<and> r * C + c < i * C + j + length (f # rest)
          then Some (((f # rest) ! (r * C + c - (i * C + j))) ())
          else content (cells g ! r ! c))" if rc: "r < R" "c < C" for r c
    proof -
      from ct rc have e: "content (cells g' ! r ! c) =
         (if i * C + Suc j \<le> r * C + c \<and> r * C + c < i * C + Suc j + length rest
          then Some ((rest ! (r * C + c - (i * C + Suc j))) ())
          else content (cells ?g1 ! r ! c))" by blast
      show ?thesis
        unfolding e c1 [OF rc(1)]
        using lin_index_eq [OF rc(2) Cons.prems(3), of r i]
        by (auto simp add: nth_Cons' Suc_diff_le)
    qed
    ultimately show ?thesis using r(2) by blast
  next
    case next_row
    have cap: "Suc i * C + 0 + length rest \<le> R * C" using Cons.prems(4) next_row(1) by simp
    have pos: "0 < C" using Cons.prems(3) by simp
    from Cons.IH [OF ready1 next_row(2) pos cap] obtain g' where
      r: "place_content ?g1 (int R) (int C) (int (Suc i)) (int 0) rest = Inr g'" "grid_ready g' R C"
      and ct: "\<forall>r<R. \<forall>c<C. content (cells g' ! r ! c) =
         (if Suc i * C + 0 \<le> r * C + c \<and> r * C + c < Suc i * C + 0 + length rest
          then Some ((rest ! (r * C + c - (Suc i * C + 0))) ())
          else content (cells ?g1 ! r ! c))"
      by blast
    have k: "Suc i * C + 0 = Suc (i * C + j)" using next_row(1) by simp
    have "place_content g (int R) (int C) (int i) (int j) (f # rest) = Inr g'"
      using step next_row r(1) by (simp add: add.commute)
    moreover have "content (cells g' ! r ! c) =
         (if i * C + j \<le> r * C + c \<and> r * C + c < i * C + j + length (f # rest)
          then Some (((f # rest) ! (r * C + c - (i * C + j))) ())
          else content (cells g ! r ! c))" if rc: "r < R" "c < C" for r c
    proof -
      from ct rc have e: "content (cells g' ! r ! c) =
         (if Suc (i * C + j) \<le> r * C + c \<and> r * C + c < Suc (i * C + j) + length rest
          then Some ((rest ! (r * C + c - Suc (i * C + j))) ())
          else content (cells ?g1 ! r ! c))" unfolding k by blast
      show ?thesis
        unfolding e c1 [OF rc(1)]
        using lin_index_eq [OF rc(2) Cons.prems(3), of r i]
        by (auto simp add: nth_Cons' Suc_diff_le)
    qed
    ultimately show ?thesis using r(2) by blast
  next
    case last
    have "i * C + j + 1 = R * C" using last by auto
    with Cons.prems(4) have "length (f # rest) \<le> 1" by linarith
    then have e: "rest = []" by simp
    have "place_content g (int R) (int C) (int i) (int j) (f # rest) = Inr ?g1"
      using step last by simp
    moreover have "content (cells ?g1 ! r ! c) =
         (if i * C + j \<le> r * C + c \<and> r * C + c < i * C + j + length (f # rest)
          then Some (((f # rest) ! (r * C + c - (i * C + j))) ())
          else content (cells g ! r ! c))" if rc: "r < R" "c < C" for r c
      unfolding c1 [OF rc(1)] e
      using lin_index_eq [OF rc(2) Cons.prems(3), of r i]
      by auto
    ultimately show ?thesis using ready1 by blast
  qed
qed

lemma int_sqrt_bounds: "int_sqrt n * int_sqrt n \<le> n \<and> n < (int_sqrt n + 1) * (int_sqrt n + 1)"
proof (induction n)
  case 0
  show ?case by simp
next
  case (Suc n)
  then show ?case by (auto simp add: Let_def)
qed

lemma int_sqrt_floor: "int (int_sqrt n) = \<lfloor>sqrt (real n)\<rfloor>"
proof -
  let ?r = "int_sqrt n"
  have lo: "real ?r \<le> sqrt (real n)"
  proof (rule real_le_rsqrt)
    have "real (?r * ?r) \<le> real n" using int_sqrt_bounds [of n] by (simp only: of_nat_le_iff)
    then show "(real ?r)\<^sup>2 \<le> real n" by (simp add: power2_eq_square)
  qed
  have hi: "sqrt (real n) < real ?r + 1"
  proof (rule real_less_lsqrt)
    show "0 \<le> real ?r + 1" by simp
    have "real n < real ((?r + 1) * (?r + 1))" using int_sqrt_bounds [of n] by (simp only: of_nat_less_iff)
    then show "real n < (real ?r + 1)\<^sup>2" by (simp add: power2_eq_square algebra_simps)
  qed
  have "\<lfloor>sqrt (real n)\<rfloor> = int ?r"
    by (rule floor_unique) (use lo hi in simp_all)
  then show ?thesis by simp
qed

lemma ceil_div:
  fixes n c :: int
  assumes "0 < c"
  shows "(n + c - 1) div c = \<lceil>real_of_int n / real_of_int c\<rceil>"
proof -
  define z where "z = (n + c - 1) div c"
  have m: "z * c + (n + c - 1) mod c = n + c - 1"
    by (simp add: z_def)
  have r: "0 \<le> (n + c - 1) mod c" "(n + c - 1) mod c < c"
    using assms by simp_all
  have up: "n \<le> z * c" using m r by linarith
  have lo: "(z - 1) * c < n" using m r by (simp add: algebra_simps) 
  have cr: "0 < real_of_int c" using assms by simp
  have "real_of_int n \<le> real_of_int (z * c)" using up by (simp only: of_int_le_iff)
  then have a: "real_of_int n / real_of_int c \<le> real_of_int z"
    using cr by (simp add: pos_divide_le_eq)
  have "real_of_int ((z - 1) * c) < real_of_int n" using lo by (simp only: of_int_less_iff)
  then have b: "real_of_int z - 1 < real_of_int n / real_of_int c"
    using cr by (simp add: pos_less_divide_eq)
  have "\<lceil>real_of_int n / real_of_int c\<rceil> = z"
    by (rule ceiling_unique) (use a b in simp_all)
  then show ?thesis by (simp add: z_def)
qed

lemma GridCell_ready:
  "cell_ready (GridCell r c (format_2f a @ ''%'') (format_2f b @ ''%'') (format_2f w @ ''%'')
     (format_2f h @ ''%''))"
  by (simp add: cell_ready_def GridCell_def percent_value_format_2f)

lemma Grid_fresh:
  assumes "0 < R" and "0 < C"
    and "\<not> isl (grid_origin_percent x 10)" and "\<not> isl (grid_origin_percent y 13.333)"
    and "\<not> isl (grid_size_percent width)" and "\<not> isl (grid_size_percent height)"
  shows "\<exists>g. Grid x y width height (int R) (int C) padding h_align = Inr g \<and> grid_ready g R C \<and>
           (\<forall>r<R. \<forall>c<C. content (cells g ! r ! c) = None)"
proof -
  have nz: "int R \<noteq> 0" "int C \<noteq> 0" using assms(1,2) by simp_all
  show ?thesis
    using assms(3-6)
    by (simp add: Grid_def create_cells_nonzero [OF nz] grid_ready_def list_all_iff GridCell_ready)
       (simp add: GridCell_def)
qed

lemma auto_dimensions:
  fixes n :: nat
  assumes "0 < n"
  defines "C \<equiv> max 1 (int_sqrt n)"
  defines "R \<equiv> (n + C - 1) div C"
  shows "0 < C" and "0 < R" and "n \<le> R * C"
    and "int C = max 1 (int (int_sqrt n))"
    and "int R = (int n + int C - 1) div int C"
proof -
  show c: "0 < C" by (simp add: C_def)
  have "C \<le> n + C - 1" using assms(1) by simp
  then have "C div C \<le> (n + C - 1) div C" by (rule div_le_mono)
  then show "0 < R" using c by (simp add: R_def)
  have "n + C - 1 = R * C + (n + C - 1) mod C" by (simp add: R_def)
  moreover have "(n + C - 1) mod C < C" using c by simp
  ultimately show "n \<le> R * C" by linarith
  show "int C = max 1 (int (int_sqrt n))" by (simp add: C_def)
  have "int (n + C - 1) = int n + int C - 1" using assms(1) by simp
  then show "int R = (int n + int C - 1) div int C"
    by (simp add: R_def zdiv_int)
qed

lemma percent_readyE:
  assumes "percent_ready p"
  obtains s v where "p = PStr s" and "py_endswith s ''%''" and "percent_value s = Inr v"
    and "py_float (py_strip ''%'' s) = Some v"
proof -
  from assms obtain s where s: "p = PStr s" "py_endswith s ''%''" "\<not> isl (percent_value s)"
    by (cases p) (simp_all add: percent_ready_def)
  from s(3) obtain v where v: "percent_value s = Inr v" by (meson not_isl_Inr)
  then have "py_float (py_strip ''%'' s) = Some v"
    by (simp add: percent_value_def split: option.splits)
  with s v that show thesis by blast
qed

lemma percent_ready_geometry:
  assumes "percent_ready p"
  shows "\<not> isl (grid_origin_percent p f)" and "\<not> isl (grid_size_percent p)"
    and "\<not> isl (title_height_value p)" and "\<not> isl (convert_position self p d w h)"
proof -
  from assms obtain s v where s: "p = PStr s" "py_endswith s ''%''" "percent_value s = Inr v"
    "py_float (py_strip ''%'' s) = Some v"
    by (rule percent_readyE)
  show "\<not> isl (grid_origin_percent p f)" by (simp add: grid_origin_percent_def s)
  show "\<not> isl (grid_size_percent p)" by (simp add: grid_size_percent_def s)
  show "\<not> isl (title_height_value p)" by (simp add: title_height_value_def s)
  show "\<not> isl (convert_position self p d w h)"
    by (simp add: convert_position_def s Let_def py_truediv_def)
qed

lemma percent_ready_format_2f: "percent_ready (PStr (format_2f v @ ''%''))"
  by (simp add: percent_ready_def py_endswith_percent percent_value_format_2f)

lemma add_text_percent_ready:
  assumes "percent_ready x" and "percent_ready y" and "percent_ready width" and "percent_ready height"
  shows "\<exists>r. add_text parent x y width height align h_align = Inr r"
proof -
  let ?h = "if h_align = None \<and> align = ''center'' then Some ''center'' else h_align"
  from percent_ready_geometry(4) [OF assms(1), of parent "slide_width parent" True ?h]
  obtain a where a: "convert_position parent x (slide_width parent) True ?h = Inr a"
    by (meson not_isl_Inr)
  from percent_ready_geometry(4) [OF assms(2), of parent "slide_height parent" False None]
  obtain b where b: "convert_position parent y (slide_height parent) False None = Inr b"
    by (meson not_isl_Inr)
  from percent_ready_geometry(4) [OF assms(3), of parent "slide_width parent" True None]
  obtain c where c: "convert_position parent width (slide_width parent) True None = Inr c"
    by (meson not_isl_Inr)
  from percent_ready_geometry(4) [OF assms(4), of parent "slide_height parent" False None]
  obtain d where d: "convert_position parent height (slide_height parent) False None = Inr d"
    by (meson not_isl_Inr)
  show ?thesis
    by (simp add: add_text_def Let_def a b c d)
qed

lemma add_to_cell_geometry:
  assumes "add_to_cell g r c f k = Inr res"
  shows "\<not> isl (grid_origin_percent (grid_x g) 10)" and "\<not> isl (grid_origin_percent (grid_y g) 13.333)"
    and "\<not> isl (grid_size_percent (grid_width g))" and "\<not> isl (grid_size_percent (grid_height g))"
  using assms by (auto simp add: add_to_cell_def split: sum.splits if_splits)

lemma place_content_first:
  assumes "place_content g R C i j (f # rest) = Inr g'"
  shows "\<exists>res. add_to_cell g i j (\<lambda>kwargs. f ()) Map.empty = Inr res"
  using assms by (auto split: sum.splits)

lemma Grid_fields:
  assumes "Grid x y width height R C padding h_align = Inr g"
  shows "grid_x g = x" and "grid_y g = y" and "grid_width g = width" and "grid_height g = height"
  using assms by (auto simp add: Grid_def split: sum.splits)

lemma placed_result:
  assumes "0 < R" and "0 < C" and "length fs \<le> R * C" and "fs \<noteq> []"
    and "Grid x y width height (int R) (int C) padding h_align = Inr grid"
    and "place_content grid (int R) (int C) 0 0 fs = Inr g"
  shows "grid_ready g R C \<and>
     (\<forall>r<R. \<forall>c<C. content (cells g ! r ! c) =
        (if r * C + c < length fs then Some ((fs ! (r * C + c)) ()) else None))"
proof -
  from assms(4) obtain f rest where fs: "fs = f # rest" by (cases fs) simp_all
  from place_content_first [OF assms(6) [unfolded fs]]
  obtain res where res: "add_to_cell grid 0 0 (\<lambda>kwargs. f ()) Map.empty = Inr res" by blast
  note geo = add_to_cell_geometry [OF res, unfolded Grid_fields [OF assms(5)]]
  from Grid_fresh [OF assms(1,2) geo, of padding h_align, where ?'a = 'a] assms(5)
  have ready: "grid_ready grid R C" and empty: "\<forall>r<R. \<forall>c<C. content (cells grid ! r ! c) = None"
    by simp_all
  have cap: "0 * C + 0 + length fs \<le> R * C" using assms(3) by simp
  from place_content_ready [OF ready assms(1,2) cap] assms(6)
  have "grid_ready g R C" and "\<forall>r<R. \<forall>c<C. content (cells g ! r ! c) =
         (if 0 * C + 0 \<le> r * C + c \<and> r * C + c < 0 * C + 0 + length fs
          then Some ((fs ! (r * C + c - (0 * C + 0))) ())
          else content (cells grid ! r ! c))"
    by simp_all
  with empty show ?thesis by simp
qed

lemma placed_exists:
  assumes "0 < R" and "0 < C" and "length fs \<le> R * C"
    and "\<not> isl (grid_origin_percent x 10)" and "\<not> isl (grid_origin_percent y 13.333)"
    and "\<not> isl (grid_size_percent width)" and "\<not> isl (grid_size_percent height)"
  shows "\<exists>g. (case Grid x y width height (int R) (int C) padding h_align of
                 Inl e \<Rightarrow> Inl e
               | Inr grid \<Rightarrow> place_content grid (int R) (int C) 0 0 fs) = Inr g"
proof -
  from Grid_fresh [OF assms(1,2,4-7), of padding h_align, where ?'a = 'a]
  obtain g0 :: "'a grid" where g0: "Grid x y width height (int R) (int C) padding h_align = Inr g0"
    "grid_ready g0 R C" by blast
  have cap: "0 * C + 0 + length fs \<le> R * C" using assms(3) by simp
  from place_content_ready [OF g0(2) assms(1,2) cap]
  obtain g where "place_content g0 (int R) (int C) (int 0) (int 0) fs = Inr g" by blast
  then show ?thesis by (simp add: g0(1))
qed

lemma autogrid_returns:
  assumes "content_funcs \<noteq> []"
    and "C = max 1 (int (int_sqrt (length content_funcs)))"
    and "R = (int (length content_funcs) + C - 1) div C"
    and "autogrid parent content_funcs None None x y width height padding h_align title title_height
           = Inr g"
  shows "\<exists>ay ah grid. Grid x ay width ah R C padding h_align = Inr grid \<and>
           place_content grid R C 0 0 content_funcs = Inr g"
proof -
  have nz: "max 1 (int (int_sqrt (length content_funcs))) \<noteq> 0" by simp
  show ?thesis
    using assms(1,4) nz unfolding assms(2,3)
    by (auto simp add: autogrid_def py_floordiv_def Let_def
          split: sum.splits position.splits if_splits option.splits prod.splits)
qed

lemma autogrid_no_title:
  assumes "content_funcs \<noteq> []" and "title = None \<or> title = Some []"
    and "C = max 1 (int (int_sqrt (length content_funcs)))"
    and "R = (int (length content_funcs) + C - 1) div C"
  shows "autogrid parent content_funcs None None x y width height padding h_align title title_height =
     (case Grid x y width height R C padding h_align of
        Inl e \<Rightarrow> Inl e
      | Inr grid \<Rightarrow> place_content grid R C 0 0 content_funcs)"
proof -
  have nz: "max 1 (int (int_sqrt (length content_funcs))) \<noteq> 0" by simp
  show ?thesis
    using assms(1,2) nz unfolding assms(3,4)
    by (cases y) (auto simp add: autogrid_def py_floordiv_def Let_def split: sum.splits)
qed

lemma autogrid_title:
  assumes "content_funcs \<noteq> []" and "title = Some t" and "t \<noteq> []"
    and "C = max 1 (int (int_sqrt (length content_funcs)))"
    and "R = (int (length content_funcs) + C - 1) div C"
    and "py_endswith ys ''%''" and "percent_value ys = Inr yp"
    and "title_height_value title_height = Inr th"
    and "py_endswith hs ''%''" and "percent_value hs = Inr hp"
    and "add_text parent x (PStr (format_2f yp @ ''%'')) width title_height ''center'' h_align = Inr r"
  shows "autogrid parent content_funcs None None x (PStr ys) width (PStr hs) padding h_align title
           title_height =
     (case Grid x (PStr (format_2f (yp + th) @ ''%'')) width (PStr (format_2f (hp - th) @ ''%'')) R C
             padding h_align of
        Inl e \<Rightarrow> Inl e
      | Inr grid \<Rightarrow> place_content grid R C 0 0 content_funcs)"
proof -
  have nz: "max 1 (int (int_sqrt (length content_funcs))) \<noteq> 0" by simp
  show ?thesis
    using assms(1,3) nz unfolding assms(4,5)
    by (simp add: autogrid_def py_floordiv_def Let_def assms(2,6-11) split: sum.splits)
qed

text \<open>
  C6. \<open>autogrid\<close> is given \<open>n \<ge> 1\<close> content functions and neither \<open>rows\<close> nor \<open>cols\<close>.
  Whenever it returns a grid, with or without a title and whatever the geometry, the grid has
  \<open>cols = max(1, floor(sqrt n))\<close> and \<open>rows = ceil(n / cols)\<close>; the cell \<open>(r, c)\<close> holds the
  result of the content function number \<open>r * cols + c\<close> when that number is below \<open>n\<close>, and
  no content otherwise; for \<open>n = 5\<close> this is 2 columns and 3 rows, and the cell (2,1) is
  without content. It does return a grid when there is no title and the grid geometry reads
  back as numbers, and, with or without a title, when \<open>x\<close>, \<open>y\<close>, \<open>width\<close>, \<open>height\<close> and
  \<open>title_height\<close> are percent strings, as the defaults are.
\<close>

theorem autogrid_near_square:
  assumes "content_funcs \<noteq> []"
  shows "(\<forall>g. autogrid parent content_funcs None None x y width height padding h_align title title_height
               = Inr g \<longrightarrow>
           grid_cols g = max 1 \<lfloor>sqrt (real (length content_funcs))\<rfloor> \<and>
           grid_rows g = \<lceil>real (length content_funcs) / real_of_int (grid_cols g)\<rceil> \<and>
           (\<forall>r c. 0 \<le> r \<and> r < grid_rows g \<and> 0 \<le> c \<and> c < grid_cols g \<longrightarrow>
              map_sum id content (get_cell g r c) =
                Inr (if r * grid_cols g + c < int (length content_funcs)
                     then Some ((content_funcs ! nat (r * grid_cols g + c)) ()) else None)) \<and>
           (length content_funcs = 5 \<longrightarrow>
              grid_cols g = 2 \<and> grid_rows g = 3 \<and> map_sum id content (get_cell g 2 1) = Inr None)) \<and>
         ((title = None \<or> title = Some []) \<and>
          \<not> isl (grid_origin_percent x 10) \<and> \<not> isl (grid_origin_percent y 13.333) \<and>
          \<not> isl (grid_size_percent width) \<and> \<not> isl (grid_size_percent height) \<longrightarrow>
            (\<exists>g. autogrid parent content_funcs None None x y width height padding h_align title
                    title_height = Inr g)) \<and>
         (percent_ready x \<and> percent_ready y \<and> percent_ready width \<and> percent_ready height \<and>
          percent_ready title_height \<longrightarrow>
            (\<exists>g. autogrid parent content_funcs None None x y width height padding h_align title
                    title_height = Inr g))"
proof -
  define n where "n = length content_funcs"
  define C where "C = max 1 (int_sqrt n)"
  define R where "R = (n + C - 1) div C"
  have npos: "0 < n" using assms(1) by (simp add: n_def)
  note d = auto_dimensions [OF npos, folded C_def, folded R_def]
  have Ci: "int C = max 1 (int (int_sqrt (length content_funcs)))"
    using d(4) by (simp add: n_def)
  have Ri: "int R = (int (length content_funcs) + int C - 1) div int C"
    using d(5) by (simp add: n_def)
  have cap: "length content_funcs \<le> R * C" using d(3) by (simp add: n_def)
  have part1: "grid_cols g = max 1 \<lfloor>sqrt (real (length content_funcs))\<rfloor> \<and>
           grid_rows g = \<lceil>real (length content_funcs) / real_of_int (grid_cols g)\<rceil> \<and>
           (\<forall>r c. 0 \<le> r \<and> r < grid_rows g \<and> 0 \<le> c \<and> c < grid_cols g \<longrightarrow>
              map_sum id content (get_cell g r c) =
                Inr (if r * grid_cols g + c < int (length content_funcs)
                     then Some ((content_funcs ! nat (r * grid_cols g + c)) ()) else None)) \<and>
           (length content_funcs = 5 \<longrightarrow>
              grid_cols g = 2 \<and> grid_rows g = 3 \<and> map_sum id content (get_cell g 2 1) = Inr None)"
    if run: "autogrid parent content_funcs None None x y width height padding h_align title title_height
               = Inr g" for g
  proof -
    from autogrid_returns [OF assms Ci Ri run] obtain ay ah grid where
      grid: "Grid x ay width ah (int R) (int C) padding h_align = Inr grid"
      and placed: "place_content grid (int R) (int C) 0 0 content_funcs = Inr g"
      by blast
    from placed_result [OF d(2) d(1) cap assms grid placed]
    have ready: "grid_ready g R C"
      and ct: "\<forall>r<R. \<forall>c<C. content (cells g ! r ! c) =
        (if r * C + c < length content_funcs then Some ((content_funcs ! (r * C + c)) ()) else None)"
      by simp_all
    have rows: "grid_rows g = int R" and cols: "grid_cols g = int C"
      using ready by (simp_all add: grid_ready_def)
    have c1: "grid_cols g = max 1 \<lfloor>sqrt (real (length content_funcs))\<rfloor>"
      using d(4) by (simp add: cols int_sqrt_floor n_def)
    have cpos: "0 < int C" using d(1) by simp
    have c2: "grid_rows g = \<lceil>real (length content_funcs) / real_of_int (grid_cols g)\<rceil>"
      using ceil_div [OF cpos, of "int n"] d(5) by (simp add: rows cols n_def)
    have c3: "map_sum id content (get_cell g r c) =
                  Inr (if r * grid_cols g + c < int (length content_funcs)
                       then Some ((content_funcs ! nat (r * grid_cols g + c)) ()) else None)"
      if rc: "0 \<le> r \<and> r < grid_rows g \<and> 0 \<le> c \<and> c < grid_cols g" for r c
    proof -
      from rc have r: "nat r < R" and c: "nat c < C" unfolding rows cols by linarith+
      have idx: "r * int C + c = int (nat r * C + nat c)" using rc by simp
      have i1: "nat (r * int C + c) = nat r * C + nat c" unfolding idx by (rule nat_int)
      have i2: "(r * int C + c < int (length content_funcs))
                  = (nat r * C + nat c < length content_funcs)" unfolding idx by (rule of_nat_less_iff)
      from ct r c have ce: "content (cells g ! nat r ! nat c) =
           (if nat r * C + nat c < length content_funcs
            then Some ((content_funcs ! (nat r * C + nat c)) ()) else None)"
        by simp
      have gc: "get_cell g r c = Inr (cells g ! nat r ! nat c)"
        using rc by (simp add: get_cell_def cell_at_def)
      show ?thesis
        unfolding gc cols i1 i2 by (simp add: ce)
    qed
    have c4: "grid_cols g = 2 \<and> grid_rows g = 3 \<and> map_sum id content (get_cell g 2 1) = Inr None"
      if five: "length content_funcs = 5"
    proof -
      have s5: "int_sqrt 5 = 2" by (simp add: eval_nat_numeral)
      have n5: "n = 5" using five by (simp add: n_def)
      have C2: "C = 2" by (simp add: C_def n5 s5)
      have R3: "R = 3" by (simp add: R_def n5 C2)
      have gc: "grid_cols g = 2" and gr: "grid_rows g = 3" by (simp_all add: rows cols C2 R3)
      have "0 \<le> (2::int) \<and> 2 < grid_rows g \<and> 0 \<le> (1::int) \<and> 1 < grid_cols g" by (simp add: gc gr)
      from c3 [OF this] have "map_sum id content (get_cell g 2 1) = Inr None"
        by (simp add: gc five)
      with gc gr show ?thesis by simp
    qed
    from c1 c2 c3 c4 show ?thesis by blast
  qed
  have part2: "\<exists>g. autogrid parent content_funcs None None x y width height padding h_align title
                    title_height = Inr g"
    if h: "(title = None \<or> title = Some []) \<and>
          \<not> isl (grid_origin_percent x 10) \<and> \<not> isl (grid_origin_percent y 13.333) \<and>
          \<not> isl (grid_size_percent width) \<and> \<not> isl (grid_size_percent height)"
  proof -
    from h have t: "title = None \<or> title = Some []"
      and geo: "\<not> isl (grid_origin_percent x 10)" "\<not> isl (grid_origin_percent y 13.333)"
        "\<not> isl (grid_size_percent width)" "\<not> isl (grid_size_percent height)"
      by simp_all
    show ?thesis
      unfolding autogrid_no_title [OF assms t Ci Ri]
      by (rule placed_exists [OF d(2) d(1) cap geo])
  qed
  have part3: "\<exists>g. autogrid parent content_funcs None None x y width height padding h_align title
                    title_height = Inr g"
    if h: "percent_ready x \<and> percent_ready y \<and> percent_ready width \<and> percent_ready height \<and>
          percent_ready title_height"
  proof (cases "title = None \<or> title = Some []")
    case True
    from h have "\<not> isl (grid_origin_percent x 10)" "\<not> isl (grid_origin_percent y 13.333)"
        "\<not> isl (grid_size_percent width)" "\<not> isl (grid_size_percent height)"
      by (simp_all add: percent_ready_geometry)
    with True part2 show ?thesis by blast
  next
    case False
    then obtain t where t: "title = Some t" "t \<noteq> []" by (cases title) simp_all
    from h have px: "percent_ready x" and py: "percent_ready y" and pw: "percent_ready width"
      and ph: "percent_ready height" and pt: "percent_ready title_height"
      by simp_all
    from py obtain ys yp where ys: "y = PStr ys" "py_endswith ys ''%''" "percent_value ys = Inr yp"
      by (rule percent_readyE)
    from ph obtain hs hp where hs: "height = PStr hs" "py_endswith hs ''%''" "percent_value hs = Inr hp"
      by (rule percent_readyE)
    from percent_ready_geometry(3) [OF pt] obtain th where th: "title_height_value title_height = Inr th"
      by (meson not_isl_Inr)
    from add_text_percent_ready [OF px percent_ready_format_2f pw pt]
    obtain r where r: "add_text parent x (PStr (format_2f yp @ ''%'')) width title_height ''center''
        h_align = Inr r"
      by blast
    show ?thesis
      unfolding ys(1) hs(1) autogrid_title [OF assms t Ci Ri ys(2,3) th hs(2,3) r]
      by (rule placed_exists [OF d(2) d(1) cap percent_ready_geometry(1) [OF px]
            percent_ready_geometry(1) [OF percent_ready_format_2f]
            percent_ready_geometry(2) [OF pw] percent_ready_geometry(2) [OF percent_ready_format_2f]])
  qed
  from part1 part2 part3 show ?thesis by blast
qed

lemma default_geometry:
  "\<not> isl (grid_origin_percent (PStr ''5%'') 10)" "\<not> isl (grid_origin_percent (PStr ''5%'') 13.333)"
  "\<not> isl (grid_size_percent (PStr ''90%''))"
  by (simp_all add: grid_origin_percent_def grid_size_percent_def parse_eval)

lemma default_percent_ready:
  "percent_ready (PStr ''5%'')" "percent_ready (PStr ''90%'')" "percent_ready (PStr ''10%'')"
  by (simp_all add: percent_ready_def parse_eval)

theorem autogrid_near_square_witness:
  "[\<lambda>_. 10, \<lambda>_. 11, \<lambda>_. 12, \<lambda>_. 13, \<lambda>_. (14::nat)] \<noteq> [] \<and>
   percent_ready (PStr ''5%'') \<and> percent_ready (PStr ''90%'') \<and> percent_ready (PStr ''10%'') \<and>
   (\<exists>g. autogrid \<lparr>slide_width = 9144000, slide_height = 6858000\<rparr>
          [\<lambda>_. 10, \<lambda>_. 11, \<lambda>_. 12, \<lambda>_. 13, \<lambda>_. (14::nat)] None None
          (PStr ''5%'') (PStr ''5%'') (PStr ''90%'') (PStr ''90%'') 5 (Some ''center'')
          (Some ''Quarterly results'') (PStr ''10%'')
        = Inr g \<and>
      grid_cols g = 2 \<and> grid_rows g = 3 \<and>
      map_sum id content (get_cell g 0 0) = Inr (Some 10) \<and>
      map_sum id content (get_cell g 0 1) = Inr (Some 11) \<and>
      map_sum id content (get_cell g 1 0) = Inr (Some 12) \<and>
      map_sum id content (get_cell g 1 1) = Inr (Some 13) \<and>
      map_sum id content (get_cell g 2 0) = Inr (Some 14) \<and>
      map_sum id content (get_cell g 2 1) = Inr None) \<and>
   (\<exists>g. autogrid \<lparr>slide_width = 9144000, slide_height = 6858000\<rparr>
          [\<lambda>_. 10, \<lambda>_. 11, \<lambda>_. 12, \<lambda>_. 13, \<lambda>_. (14::nat)] None None
          (PStr ''5%'') (PStr ''5%'') (PStr ''90%'') (PStr ''90%'') 5 (Some ''center'')
          None (PStr ''10%'')
        = Inr g \<and>
      grid_cols g = 2 \<and> grid_rows g = 3 \<and>
      map_sum id content (get_cell g 2 0) = Inr (Some 14) \<and>
      map_sum id content (get_cell g 2 1) = Inr None)"
proof -
  let ?fs = "[\<lambda>_. 10, \<lambda>_. 11, \<lambda>_. 12, \<lambda>_. 13, \<lambda>_. (14::nat)] :: (unit \<Rightarrow> nat) list"
  let ?p = "\<lparr>slide_width = 9144000, slide_height = 6858000\<rparr>"
  have ne: "?fs \<noteq> []" by simp
  note t1 = autogrid_near_square [OF ne, of ?p "PStr ''5%''" "PStr ''5%''" "PStr ''90%''" "PStr ''90%''"
      5 "Some ''center''" "Some ''Quarterly results''" "PStr ''10%''"]
  note t2 = autogrid_near_square [OF ne, of ?p "PStr ''5%''" "PStr ''5%''" "PStr ''90%''" "PStr ''90%''"
      5 "Some ''center''" None "PStr ''10%''"]
  from t1 [THEN conjunct2, THEN conjunct2] default_percent_ready
  obtain g1 where g1: "autogrid ?p ?fs None None (PStr ''5%'') (PStr ''5%'') (PStr ''90%'')
      (PStr ''90%'') 5 (Some ''center'') (Some ''Quarterly results'') (PStr ''10%'') = Inr g1"
    by blast
  from t1 [THEN conjunct1, rule_format, OF g1]
  have cells1: "\<forall>r c. 0 \<le> r \<and> r < grid_rows g1 \<and> 0 \<le> c \<and> c < grid_cols g1 \<longrightarrow>
              map_sum id content (get_cell g1 r c) =
                Inr (if r * grid_cols g1 + c < int (length ?fs)
                     then Some ((?fs ! nat (r * grid_cols g1 + c)) ()) else None)"
    and five1: "length ?fs = 5 \<longrightarrow>
              grid_cols g1 = 2 \<and> grid_rows g1 = 3 \<and> map_sum id content (get_cell g1 2 1) = Inr None"
    by blast+
  from five1 have d1: "grid_cols g1 = 2" "grid_rows g1 = 3"
    "map_sum id content (get_cell g1 2 1) = Inr None"
    by simp_all
  have a: "map_sum id content (get_cell g1 0 0) = Inr (Some 10)"
    using cells1 [rule_format, of 0 0] by (simp add: d1)
  have b: "map_sum id content (get_cell g1 0 1) = Inr (Some 11)"
    using cells1 [rule_format, of 0 1] by (simp add: d1)
  have c: "map_sum id content (get_cell g1 1 0) = Inr (Some 12)"
    using cells1 [rule_format, of 1 0] by (simp add: d1)
  have d: "map_sum id content (get_cell g1 1 1) = Inr (Some 13)"
    using cells1 [rule_format, of 1 1] by (simp add: d1)
  have e: "map_sum id content (get_cell g1 2 0) = Inr (Some 14)"
    using cells1 [rule_format, of 2 0] by (simp add: d1)
  have first: "\<exists>g. autogrid ?p ?fs None None (PStr ''5%'') (PStr ''5%'') (PStr ''90%'')
      (PStr ''90%'') 5 (Some ''center'') (Some ''Quarterly results'') (PStr ''10%'') = Inr g \<and>
      grid_cols g = 2 \<and> grid_rows g = 3 \<and>
      map_sum id content (get_cell g 0 0) = Inr (Some 10) \<and>
      map_sum id content (get_cell g 0 1) = Inr (Some 11) \<and>
      map_sum id content (get_cell g 1 0) = Inr (Some 12) \<and>
      map_sum id content (get_cell g 1 1) = Inr (Some 13) \<and>
      map_sum id content (get_cell g 2 0) = Inr (Some 14) \<and>
      map_sum id content (get_cell g 2 1) = Inr None"
    using g1 d1 a b c d e by blast
  from t2 [THEN conjunct2, THEN conjunct1] default_geometry
  obtain g2 where g2: "autogrid ?p ?fs None None (PStr ''5%'') (PStr ''5%'') (PStr ''90%'')
      (PStr ''90%'') 5 (Some ''center'') None (PStr ''10%'') = Inr g2"
    by blast
  from t2 [THEN conjunct1, rule_format, OF g2]
  have cells2: "\<forall>r c. 0 \<le> r \<and> r < grid_rows g2 \<and> 0 \<le> c \<and> c < grid_cols g2 \<longrightarrow>
              map_sum id content (get_cell g2 r c) =
                Inr (if r * grid_cols g2 + c < int (length ?fs)
                     then Some ((?fs ! nat (r * grid_cols g2 + c)) ()) else None)"
    and five2: "length ?fs = 5 \<longrightarrow>
              grid_cols g2 = 2 \<and> grid_rows g2 = 3 \<and> map_sum id content (get_cell g2 2 1) = Inr None"
    by blast+
  from five2 have d2: "grid_cols g2 = 2" "grid_rows g2 = 3"
    "map_sum id content (get_cell g2 2 1) = Inr None"
    by simp_all
  have e2: "map_sum id content (get_cell g2 2 0) = Inr (Some 14)"
    using cells2 [rule_format, of 2 0] by (simp add: d2)
  have second: "\<exists>g. autogrid ?p ?fs None None (PStr ''5%'') (PStr ''5%'') (PStr ''90%'')
      (PStr ''90%'') 5 (Some ''center'') None (PStr ''10%'') = Inr g \<and>
      grid_cols g = 2 \<and> grid_rows g = 3 \<and>
      map_sum id content (get_cell g 2 0) = Inr (Some 14) \<and>
      map_sum id content (get_cell g 2 1) = Inr None"
    using g2 d2 e2 by blast
  from ne default_percent_ready first second show ?thesis by blast
qed

end
